theory Spec2Isabelle
  imports Main "HOL-Library.Word"
begin

section \<open>JavaScript strings\<close>

text \<open>
  The server is TypeScript: a string is a sequence of UTF-16 code units. The analyzer's
  output reaches \<open>Output\<close> as such a string, so the model works on lists of 16-bit
  words. \<open>js\<close> turns an Isabelle string literal (ASCII here) into code units.

  A value that may be \<open>undefined\<close> (an optional parameter, a class field that the
  constructor left unassigned, a destructured array element past the end) is an
  \<open>option\<close>, with \<open>None\<close> for \<open>undefined\<close>.
\<close>

type_synonym jschar = "16 word"
type_synonym jsstring = "jschar list"

definition ch :: "char \<Rightarrow> jschar" where
  "ch c = of_nat (of_char c)"

definition js :: "string \<Rightarrow> jsstring" where
  "js s = map ch s"

text \<open>
  \<open>String.prototype.trim\<close> removes WhiteSpace and LineTerminator code units from both
  ends: TAB, LF, VT, FF, CR, SP, NBSP, U+1680, U+2000 to U+200A, U+2028, U+2029, U+202F,
  U+205F, U+3000 and U+FEFF.
\<close>

definition isWhiteSpace :: "jschar \<Rightarrow> bool" where
  "isWhiteSpace c \<longleftrightarrow>
     c = 0x9 \<or> c = 0xA \<or> c = 0xB \<or> c = 0xC \<or> c = 0xD \<or> c = 0x20 \<or> c = 0xA0 \<or>
     c = 0x1680 \<or> (0x2000 \<le> c \<and> c \<le> 0x200A) \<or> c = 0x2028 \<or> c = 0x2029 \<or>
     c = 0x202F \<or> c = 0x205F \<or> c = 0x3000 \<or> c = 0xFEFF"

definition trimStart :: "jsstring \<Rightarrow> jsstring" where
  "trimStart s = dropWhile isWhiteSpace s"

definition trim :: "jsstring \<Rightarrow> jsstring" where
  "trim s = rev (trimStart (rev (trimStart s)))"

text \<open>
  \<open>s.split(/sep/)\<close> for a pattern that is one literal, non-empty text without groups
  (the two uses are \<open>/\[\[END\]\]/\<close> and \<open>/\[>\]/\<close>): the string is cut at every
  occurrence found scanning from the left, an occurrence starting only after the end of
  the one before. \<open>acc\<close> holds the piece being collected. The empty string gives one
  empty piece.
\<close>

fun split_from :: "jsstring \<Rightarrow> jsstring \<Rightarrow> jsstring \<Rightarrow> jsstring list" where
  "split_from sep acc [] = [acc]"
| "split_from sep acc (c # cs) =
     (if take (length sep) (c # cs) = sep
      then acc # split_from sep [] (drop (length sep - 1) cs)
      else split_from sep (acc @ [c]) cs)"

definition split :: "jsstring \<Rightarrow> jsstring \<Rightarrow> jsstring list" where
  "split sep s = split_from sep [] s"

text \<open>
  Array destructuring \<open>[a, b, c, d, e] = parts\<close> reads the elements by position; a
  position past the end yields \<open>undefined\<close>.
\<close>

definition element :: "'a list \<Rightarrow> nat \<Rightarrow> 'a option" where
  "element xs i = (if i < length xs then Some (xs ! i) else None)"

section \<open>Regular expressions\<close>

text \<open>
  The fragment of the pattern language that the escape-code pattern uses: a character
  class (a list of inclusive ranges), concatenation, and a greedy quantifier
  \<open>{min,max}\<close> (\<open>*\<close> is \<open>{0,}\<close>, \<open>?\<close> is \<open>{0,1}\<close>); a non-capturing group only
  brackets. \<open>ends r s\<close> lists, in the order in which the backtracking matcher of the
  language tries them, the numbers of code units that a match of \<open>r\<close> at the start of
  \<open>s\<close> can consume; the match found is the first. For the quantifier this is
  RepeatMatcher: nothing if \<open>max\<close> is 0; an iteration that consumes nothing is refused
  once \<open>min\<close> is 0; more iterations are tried before stopping.
\<close>

datatype regex =
    Class "(jschar \<times> jschar) list"
  | Seq regex regex
  | Rep nat "nat option" regex

fun in_class :: "(jschar \<times> jschar) list \<Rightarrow> jschar \<Rightarrow> bool" where
  "in_class [] c = False"
| "in_class ((lo, hi) # rs) c = ((lo \<le> c \<and> c \<le> hi) \<or> in_class rs c)"

fun rsize :: "regex \<Rightarrow> nat" where
  "rsize (Class rs) = 0"
| "rsize (Seq a b) = Suc (rsize a + rsize b)"
| "rsize (Rep mn mx r) = Suc (rsize r)"

function ends :: "regex \<Rightarrow> jsstring \<Rightarrow> nat list" where
  "ends (Class rs) s = (case s of [] \<Rightarrow> [] | c # _ \<Rightarrow> if in_class rs c then [1] else [])"
| "ends (Seq a b) s = concat (map (\<lambda>i. map (\<lambda>j. i + j) (ends b (drop i s))) (ends a s))"
| "ends (Rep mn mx r) s =
     (if mx = Some 0 then [0]
      else concat (map (\<lambda>i. if mn = 0 \<and> i = 0 then []
                               else map (\<lambda>j. i + j)
                                      (ends (Rep (mn - 1) (map_option (\<lambda>m. m - 1) mx) r) (drop i s)))
                       (ends r s))
           @ (if mn = 0 then [0] else []))"
  by pat_completeness auto

termination
proof -
  have le: "i \<le> length s" if "ends_dom (r, s)" and "i \<in> set (ends r s)" for r s i
    using that
  proof (induction r s arbitrary: i rule: ends.pinduct)
    case (1 rs s)
    then show ?case by (auto simp: ends.psimps split: list.splits if_splits)
  next
    case (2 a b s)
    then show ?case by (fastforce simp: ends.psimps)
  next
    case (3 mn mx r s)
    then show ?case by (fastforce simp: ends.psimps split: if_splits)
  qed
  show ?thesis
  proof (relation "measures [\<lambda>(r, s). rsize r, \<lambda>(r, s). length s,
                              \<lambda>(r, s). case r of Rep mn _ _ \<Rightarrow> mn | _ \<Rightarrow> 0]", goal_cases)
    case 1
    then show ?case by simp
  next
    case (2 a b s)
    then show ?case by simp
  next
    case (3 a b s x)
    then show ?case by simp
  next
    case (4 mn mx r s)
    then show ?case by simp
  next
    case (5 mn mx r s x)
    then show ?case using le [of r s x] by (cases "x = 0"; cases s) auto
  qed
qed

declare ends.simps [simp del]

text \<open>
  \<open>s.replace(/r/g, "")\<close>: every match, found from the left and starting after the one
  before, is deleted. A match of no code unit deletes nothing and the search moves on by
  one code unit.
\<close>

fun replace :: "regex \<Rightarrow> jsstring \<Rightarrow> jsstring" where
  "replace r [] = []"
| "replace r (c # cs) =
     (case ends r (c # cs) of
        [] \<Rightarrow> c # replace r cs
      | n # _ \<Rightarrow> if n = 0 then c # replace r cs else replace r (drop (n - 1) cs))"

section \<open>JavaScript numbers\<close>

text \<open>
  \<open>parseInt\<close> yields NaN, an infinity, or a double whose value is an integer, and the
  code only subtracts 1 from such a value and compares it with 0. So a number is modelled
  by its exact value: \<open>Finite v\<close> is the double of integer value \<open>v\<close>. (The double -0,
  which \<open>parseInt("-0")\<close> yields, is \<open>Finite 0\<close>: the code cannot tell them apart,
  \<open>-0 > 0\<close> being false and \<open>-0\<close> falsy.) \<open>toDouble\<close> rounds an integer to the nearest
  double, ties to the even significand of 53 bits, and to an infinity from
  \<open>2^1024 - 2^970\<close> on.
\<close>

datatype jsnum = NaN | Finite int | PosInfinity | NegInfinity

fun bitlen :: "nat \<Rightarrow> nat" where
  "bitlen n = (if n = 0 then 0 else Suc (bitlen (n div 2)))"

declare bitlen.simps [simp del]

definition roundNat :: "nat \<Rightarrow> nat" where
  "roundNat n =
     (if n < 2 ^ 53 then n
      else let e = bitlen n - 53; q = n div 2 ^ e; r = n mod 2 ^ e; h = 2 ^ (e - 1)
           in (if h < r \<or> (r = h \<and> odd q) then q + 1 else q) * 2 ^ e)"

definition toDouble :: "int \<Rightarrow> jsnum" where
  "toDouble x =
     (let v = roundNat (nat \<bar>x\<bar>)
      in if 2 ^ 1024 \<le> v then (if x < 0 then NegInfinity else PosInfinity)
         else Finite (if x < 0 then - int v else int v))"

text \<open>\<open>x - 1\<close>, \<open>x > 0\<close>, \<open>isNaN(x)\<close> and the truth value of a number or \<open>undefined\<close>.\<close>

fun minus1 :: "jsnum \<Rightarrow> jsnum" where
  "minus1 NaN = NaN"
| "minus1 (Finite v) = toDouble (v - 1)"
| "minus1 PosInfinity = PosInfinity"
| "minus1 NegInfinity = NegInfinity"

fun gt0 :: "jsnum \<Rightarrow> bool" where
  "gt0 NaN = False"
| "gt0 (Finite v) = (0 < v)"
| "gt0 PosInfinity = True"
| "gt0 NegInfinity = False"

fun isNaN :: "jsnum \<Rightarrow> bool" where
  "isNaN NaN = True"
| "isNaN _ = False"

fun truthyNumber :: "jsnum option \<Rightarrow> bool" where
  "truthyNumber None = False"
| "truthyNumber (Some NaN) = False"
| "truthyNumber (Some (Finite v)) = (v \<noteq> 0)"
| "truthyNumber (Some _) = True"

fun truthyString :: "jsstring option \<Rightarrow> bool" where
  "truthyString None = False"
| "truthyString (Some s) = (s \<noteq> [])"

text \<open>
  Digits: \<open>digitValue c\<close> is the value of \<open>c\<close> as a digit (\<open>0-9\<close>, then \<open>a-z\<close> or
  \<open>A-Z\<close> for 10 to 35), and 36 for any other code unit.
\<close>

definition digitValue :: "jschar \<Rightarrow> nat" where
  "digitValue c =
     (if 0x30 \<le> c \<and> c \<le> 0x39 then unat c - 48
      else if 0x61 \<le> c \<and> c \<le> 0x7A then unat c - 87
      else if 0x41 \<le> c \<and> c \<le> 0x5A then unat c - 55
      else 36)"

definition isRadixDigit :: "nat \<Rightarrow> jschar \<Rightarrow> bool" where
  "isRadixDigit R c \<longleftrightarrow> digitValue c < R"

definition digitsValue :: "nat \<Rightarrow> jsstring \<Rightarrow> nat" where
  "digitsValue R Z = foldl (\<lambda>a c. a * R + digitValue c) 0 Z"

text \<open>
  \<open>parseInt(string)\<close> with no radix: leading white space is skipped, a sign is read, a
  prefix \<open>0x\<close> or \<open>0X\<close> selects radix 16 (radix 10 otherwise), and the longest run of
  digits of the radix is the number; no digit gives NaN. What follows the digits is
  ignored.
\<close>

definition parseInt :: "jsstring \<Rightarrow> jsnum" where
  "parseInt inputString =
     (let S = trimStart inputString;
          neg = (S \<noteq> [] \<and> hd S = ch CHR ''-'');
          S1 = (if S \<noteq> [] \<and> (hd S = ch CHR ''+'' \<or> hd S = ch CHR ''-'') then tl S else S);
          hex = (take 2 S1 = js ''0x'' \<or> take 2 S1 = js ''0X'');
          R = (if hex then 16 else 10);
          S2 = (if hex then drop 2 S1 else S1);
          Z = takeWhile (isRadixDigit R) S2
      in if Z = [] then NaN
         else toDouble (if neg then - int (digitsValue R Z) else int (digitsValue R Z)))"

text \<open>
  \<open>isFinite(n)\<close> converts \<open>n\<close> with ToNumber and asks whether the result is neither NaN
  nor an infinity; only that much of the result is modelled. For a string, ToNumber reads
  the whole text, white space at both ends apart, as a StrNumericLiteral: nothing (the
  number 0), a binary, octal or hexadecimal integer with its prefix and no sign, or a
  signed decimal literal with optional fraction and exponent, or \<open>Infinity\<close>. The value
  is rounded to a double, so a literal from \<open>2^1024 - 2^970\<close> on is infinite.
  \<open>undefined\<close> converts to NaN.
\<close>

datatype numkind = IsNaN | IsFinite | IsInfinite

definition overflowThreshold :: nat where
  "overflowThreshold = 2 ^ 1024 - 2 ^ 970"

definition decimalOverflows :: "nat \<Rightarrow> int \<Rightarrow> bool" where
  "decimalOverflows m k =
     (if 0 \<le> k then overflowThreshold \<le> m * 10 ^ nat k
      else overflowThreshold * 10 ^ nat (- k) \<le> m)"

definition isDigit :: "jschar \<Rightarrow> bool" where
  "isDigit c \<longleftrightarrow> 0x30 \<le> c \<and> c \<le> 0x39"

definition SignedInteger :: "jsstring \<Rightarrow> int option" where
  "SignedInteger s =
     (let neg = (s \<noteq> [] \<and> hd s = ch CHR ''-'');
          d = (if s \<noteq> [] \<and> (hd s = ch CHR ''+'' \<or> hd s = ch CHR ''-'') then tl s else s)
      in if d \<noteq> [] \<and> list_all isDigit d
         then Some (if neg then - int (digitsValue 10 d) else int (digitsValue 10 d))
         else None)"

definition StrUnsignedDecimalLiteral :: "jsstring \<Rightarrow> numkind" where
  "StrUnsignedDecimalLiteral u =
     (if u = js ''Infinity'' then IsInfinite
      else let ip = takeWhile isDigit u;
               r1 = dropWhile isDigit u;
               dot = (r1 \<noteq> [] \<and> hd r1 = ch CHR ''.'');
               fp = (if dot then takeWhile isDigit (tl r1) else []);
               r2 = (if dot then dropWhile isDigit (tl r1) else r1);
               ex = (if r2 = [] then Some 0
                     else if hd r2 = ch CHR ''e'' \<or> hd r2 = ch CHR ''E'' then SignedInteger (tl r2)
                     else None)
           in if ip = [] \<and> fp = [] then IsNaN
              else case ex of
                     None \<Rightarrow> IsNaN
                   | Some k \<Rightarrow>
                       if decimalOverflows (digitsValue 10 (ip @ fp)) (k - int (length fp))
                       then IsInfinite else IsFinite)"

definition NonDecimalIntegerLiteral :: "nat \<Rightarrow> jsstring \<Rightarrow> numkind" where
  "NonDecimalIntegerLiteral R d =
     (if d \<noteq> [] \<and> list_all (isRadixDigit R) d
      then (if overflowThreshold \<le> digitsValue R d then IsInfinite else IsFinite)
      else IsNaN)"

definition StringToNumber :: "jsstring \<Rightarrow> numkind" where
  "StringToNumber s =
     (let t = trim s; p = take 2 t
      in if t = [] then IsFinite
         else if p = js ''0x'' \<or> p = js ''0X'' then NonDecimalIntegerLiteral 16 (drop 2 t)
         else if p = js ''0o'' \<or> p = js ''0O'' then NonDecimalIntegerLiteral 8 (drop 2 t)
         else if p = js ''0b'' \<or> p = js ''0B'' then NonDecimalIntegerLiteral 2 (drop 2 t)
         else StrUnsignedDecimalLiteral
                (if hd t = ch CHR ''+'' \<or> hd t = ch CHR ''-'' then tl t else t))"

fun isFinite :: "jsstring option \<Rightarrow> bool" where
  "isFinite None = False"
| "isFinite (Some s) = (StringToNumber s = IsFinite)"

fun ToString :: "jsstring option \<Rightarrow> jsstring" where
  "ToString None = js ''undefined''"
| "ToString (Some s) = s"

section \<open>Critique: one record of the analyzer's output\<close>

text \<open>
  \<open>isNumber(n)\<close> of \<open>Critique.ts\<close>: \<open>!isNaN(parseInt(n)) && isFinite(n)\<close>, where
  \<open>n\<close> is a field of the record or \<open>undefined\<close>; \<open>parseInt\<close> first converts its
  argument to a string.
\<close>

definition isNumber :: "jsstring option \<Rightarrow> bool" where
  "isNumber n \<longleftrightarrow> \<not> isNaN (parseInt (ToString n)) \<and> isFinite n"

text \<open>
  The class has six fields, none with an initializer, so each is \<open>undefined\<close> until
  the constructor assigns it.
\<close>

record Critique =
  line :: "jsnum option"
  column :: "jsnum option"
  severity :: "jsnum option"
  summary :: "jsstring option"
  explanation :: "jsstring option"
  error :: "jsstring option"

definition unassigned :: Critique where
  "unassigned = \<lparr>line = None, column = None, severity = None, summary = None,
                  explanation = None, error = None\<rparr>"

text \<open>
  A method call on \<open>undefined\<close> throws a TypeError, which nothing in the server catches:
  the constructor then returns no object. \<open>trimOf x\<close> is \<open>x.trim()\<close>.
\<close>

datatype exception = TypeError

definition trimOf :: "jsstring option \<Rightarrow> exception + jsstring" where
  "trimOf x = (case x of None \<Rightarrow> Inl TypeError | Some s \<Rightarrow> Inr (trim s))"

definition fieldSeparator :: jsstring where
  "fieldSeparator = js ''[>]''"

definition invalidOutputFormat :: jsstring where
  "invalidOutputFormat = js ''Invalid output format (Please check your perltidy settings): ''"

text \<open>\<open>x > 0 ? x - 1 : 0\<close>, the conversion of each of the three numbers.\<close>

definition zeroBased :: "jsnum \<Rightarrow> jsnum" where
  "zeroBased x = (if gt0 x then minus1 x else Finite 0)"

text \<open>\<open>new Critique(outputText)\<close>: the object built, or the exception thrown.\<close>

definition new_Critique :: "jsstring \<Rightarrow> exception + Critique" where
  "new_Critique outputText =
     (if outputText = [] then Inr unassigned
      else
        let parts = split fieldSeparator outputText;
            lineStr = element parts 0;
            columnStr = element parts 1;
            severityStr = element parts 2;
            summaryStr = element parts 3;
            explanationStr = element parts 4
        in if \<not> isNumber lineStr \<or> \<not> isNumber columnStr \<or> \<not> isNumber severityStr
           then Inr (unassigned\<lparr>error := Some (invalidOutputFormat @ outputText)\<rparr>)
           else
             case trimOf lineStr of Inl e \<Rightarrow> Inl e | Inr l \<Rightarrow>
             case trimOf columnStr of Inl e \<Rightarrow> Inl e | Inr c \<Rightarrow>
             case trimOf severityStr of Inl e \<Rightarrow> Inl e | Inr v \<Rightarrow>
             let lineInt = parseInt l;
                 columnInt = parseInt c;
                 severityInt = parseInt v
             in case trimOf summaryStr of Inl e \<Rightarrow> Inl e | Inr sm \<Rightarrow>
                case trimOf explanationStr of Inl e \<Rightarrow> Inl e | Inr ex \<Rightarrow>
                Inr \<lparr>line = Some (zeroBased lineInt),
                     column = Some (zeroBased columnInt),
                     severity = Some (zeroBased severityInt),
                     summary = Some sm,
                     explanation = Some ex,
                     error = None\<rparr>)"

section \<open>Output: the records of one run\<close>

text \<open>
  The pattern of \<open>Output.ts\<close> for terminal escape codes:
  \<^verbatim>\<open>/[\u001b\u009b][[()#;?]*(?:[0-9]{1,4}(?:;[0-9]{0,4})*)?[0-9A-ORZcf-nqry=><]/g\<close>
\<close>

definition single :: "char \<Rightarrow> jschar \<times> jschar" where
  "single c = (ch c, ch c)"

definition fromTo :: "char \<Rightarrow> char \<Rightarrow> jschar \<times> jschar" where
  "fromTo a b = (ch a, ch b)"

definition introducer :: regex where
  "introducer = Class [(0x1b, 0x1b), (0x9b, 0x9b)]"

definition punctuation :: regex where
  "punctuation = Class [single CHR ''['', single CHR ''('', single CHR '')'', single CHR ''#'',
                        single CHR '';'', single CHR ''?'']"

definition digit :: regex where
  "digit = Class [fromTo CHR ''0'' CHR ''9'']"

definition parameters :: regex where
  "parameters = Seq (Rep 1 (Some 4) digit)
                    (Rep 0 None (Seq (Class [single CHR '';'']) (Rep 0 (Some 4) digit)))"

definition final :: regex where
  "final = Class [fromTo CHR ''0'' CHR ''9'', fromTo CHR ''A'' CHR ''O'', single CHR ''R'',
                  single CHR ''Z'', single CHR ''c'', fromTo CHR ''f'' CHR ''n'', single CHR ''q'',
                  single CHR ''r'', single CHR ''y'', single CHR ''='', single CHR ''>'',
                  single CHR ''<'']"

definition ansiEscapeCode :: regex where
  "ansiEscapeCode =
     Seq introducer (Seq (Rep 0 None punctuation) (Seq (Rep 0 (Some 1) parameters) final))"

definition endOfRecord :: jsstring where
  "endOfRecord = js ''[[END]]''"

record "Output" =
  error :: "jsstring option"
  critiques :: "Critique list"

text \<open>
  The function passed to \<open>forEach\<close>, with \<open>this\<close> threaded through: it returns the
  object as the call leaves it, or the exception thrown. Its \<open>return\<close> after storing
  the error ends this call only. The record is trimmed first, then cleaned of escape
  codes, and \<open>new Critique\<close> runs a second time for the object that is pushed.
\<close>

definition cleaned :: "jsstring \<Rightarrow> jsstring" where
  "cleaned critiqueText = replace ansiEscapeCode (trim critiqueText)"

definition callback :: "Output \<Rightarrow> jsstring \<Rightarrow> exception + Output" where
  "callback this critiqueText0 =
     (let critiqueText = cleaned critiqueText0
      in case new_Critique critiqueText of
           Inl e \<Rightarrow> Inl e
         | Inr critique \<Rightarrow>
             if truthyString (Critique.error critique)
             then Inr (this\<lparr>error := Critique.error critique\<rparr>)
             else if truthyNumber (severity critique)
             then (case new_Critique critiqueText of
                     Inl e \<Rightarrow> Inl e
                   | Inr pushed \<Rightarrow> Inr (this\<lparr>critiques := critiques this @ [pushed]\<rparr>))
             else Inr this)"

text \<open>\<open>xs.forEach(f)\<close> calls \<open>f\<close> on every element in order; an exception ends it.\<close>

fun forEach :: "('s \<Rightarrow> 'a \<Rightarrow> exception + 's) \<Rightarrow> 'a list \<Rightarrow> 's \<Rightarrow> exception + 's" where
  "forEach f [] this = Inr this"
| "forEach f (x # xs) this = (case f this x of Inl e \<Rightarrow> Inl e | Inr this' \<Rightarrow> forEach f xs this')"

text \<open>\<open>new Output(outputStr, errorStr)\<close>; \<open>errorStr\<close> is optional.\<close>

definition new_Output :: "jsstring \<Rightarrow> jsstring option \<Rightarrow> exception + Output" where
  "new_Output outputStr errorStr =
     (let this = \<lparr>error = None, critiques = []\<rparr>
      in if truthyString errorStr then Inr (this\<lparr>error := errorStr\<rparr>)
         else if outputStr = [] then Inr this
         else forEach callback (split endOfRecord outputStr) this)"

section \<open>The server: from critiques to diagnostics\<close>

text \<open>
  \<open>validateTextDocument\<close> of \<open>server.ts\<close>, from the \<open>Output\<close> on: an error is shown
  and nothing is published; otherwise one diagnostic is built per critique and the list is
  sent. \<open>Number.MAX_VALUE\<close> is the largest finite double. The capability flag and the
  document's URI come from the session.
\<close>

datatype DiagnosticSeverity = Error | Warning | Information | Hint

record Position =
  line :: "jsnum option"
  character :: "jsnum option"

record Range =
  start :: Position
  "end" :: Position

record Location =
  uri :: jsstring
  range :: Range

record DiagnosticRelatedInformation =
  location :: Location
  message :: "jsstring option"

record Diagnostic =
  severity :: DiagnosticSeverity
  range :: Range
  message :: "jsstring option"
  source :: jsstring
  relatedInformation :: "DiagnosticRelatedInformation list option"

definition MAX_VALUE :: jsnum where
  "MAX_VALUE = Finite ((2 ^ 53 - 1) * 2 ^ 971)"

definition diagnostic :: "bool \<Rightarrow> jsstring \<Rightarrow> Critique \<Rightarrow> Diagnostic" where
  "diagnostic hasDiagnosticRelatedInformationCapability documentUri critique =
     (let d = \<lparr>severity = Warning,
               range = \<lparr>start = \<lparr>line = Critique.line critique, character = column critique\<rparr>,
                        end = \<lparr>line = Critique.line critique, character = Some MAX_VALUE\<rparr>\<rparr>,
               message = summary critique,
               source = js ''perlcritic'',
               relatedInformation = None\<rparr>
      in if hasDiagnosticRelatedInformationCapability
         then d\<lparr>relatedInformation :=
                  Some [\<lparr>location = \<lparr>uri = documentUri, range = Diagnostic.range d\<rparr>,
                         message = explanation critique\<rparr>]\<rparr>
         else d)"

definition diagnostics :: "bool \<Rightarrow> jsstring \<Rightarrow> Critique list \<Rightarrow> Diagnostic list" where
  "diagnostics cap documentUri cs = foldl (\<lambda>ds critique. ds @ [diagnostic cap documentUri critique]) [] cs"

datatype effect = showErrorMessage jsstring | sendDiagnostics jsstring "Diagnostic list"

definition validateTextDocument :: "bool \<Rightarrow> jsstring \<Rightarrow> Output \<Rightarrow> effect" where
  "validateTextDocument cap documentUri output =
     (case Output.error output of
        Some e \<Rightarrow> if e \<noteq> [] then showErrorMessage e
                  else sendDiagnostics documentUri (diagnostics cap documentUri (critiques output))
      | None \<Rightarrow> sendDiagnostics documentUri (diagnostics cap documentUri (critiques output)))"

section \<open>Vocabulary for the properties\<close>

text \<open>
  The condition under which \<open>new Critique(text)\<close> stores an error: the text is not empty
  and one of the first three fields is not a number.
\<close>

definition failsValidation :: "jsstring \<Rightarrow> bool" where
  "failsValidation text \<longleftrightarrow>
     text \<noteq> [] \<and>
     (\<not> isNumber (element (split fieldSeparator text) 0) \<or>
      \<not> isNumber (element (split fieldSeparator text) 1) \<or>
      \<not> isNumber (element (split fieldSeparator text) 2))"

text \<open>
  For one piece of the output between end-of-record marks: whether its \<open>Critique\<close>
  throws, and the critiques that the callback pushes for it. \<open>lastError e segs\<close> is the
  error field after the pieces \<open>segs\<close>, starting from \<open>e\<close>, when none of them throws.
\<close>

definition throws :: "jsstring \<Rightarrow> bool" where
  "throws seg \<longleftrightarrow> new_Critique (cleaned seg) = Inl TypeError"

definition pushes :: "jsstring \<Rightarrow> Critique list" where
  "pushes seg =
     (case new_Critique (cleaned seg) of
        Inl e \<Rightarrow> []
      | Inr c \<Rightarrow> if \<not> truthyString (Critique.error c) \<and> truthyNumber (Critique.severity c)
                 then [c] else [])"

definition lastError :: "jsstring option \<Rightarrow> jsstring list \<Rightarrow> jsstring option" where
  "lastError e segs =
     foldl (\<lambda>e seg. if failsValidation (cleaned seg)
                      then Some (invalidOutputFormat @ cleaned seg) else e) e segs"

text \<open>
  The specification writes the conversion of each number as \<open>max(x - 1, 0)\<close>.
  \<open>Math_max\<close> is \<open>Math.max\<close> on two numbers: NaN if one of them is, else the larger.
\<close>

fun Math_max :: "jsnum \<Rightarrow> jsnum \<Rightarrow> jsnum" where
  "Math_max NaN y = NaN"
| "Math_max x NaN = NaN"
| "Math_max PosInfinity y = PosInfinity"
| "Math_max x PosInfinity = PosInfinity"
| "Math_max NegInfinity y = y"
| "Math_max x NegInfinity = x"
| "Math_max (Finite a) (Finite b) = Finite (max a b)"

text \<open>
  For the escape codes: \<open>first r s\<close> is the match that \<open>replace\<close> takes at the start
  of \<open>s\<close>, and \<open>oneOf r c\<close> says that \<open>r\<close> matches the single code unit \<open>c\<close>. An
  escape code, for what follows, is a text that the pattern of \<open>Output.ts\<close> matches whole
  and whose last code unit is not a digit. \<open>codeShape\<close> spells the same texts out: an
  introducer, any number of the punctuation marks, optionally one to four digits followed
  by groups of a semicolon and up to four digits, and a final code unit that is not a
  digit.
\<close>

definition first :: "regex \<Rightarrow> jsstring \<Rightarrow> nat option" where
  "first r s = (case ends r s of [] \<Rightarrow> None | n # _ \<Rightarrow> Some n)"

definition oneOf :: "regex \<Rightarrow> jschar \<Rightarrow> bool" where
  "oneOf r c \<longleftrightarrow> ends r [c] = [1]"

definition escapeCode :: "jsstring \<Rightarrow> bool" where
  "escapeCode e \<longleftrightarrow> length e \<in> set (ends ansiEscapeCode e) \<and> \<not> oneOf digit (last e)"

definition digits :: "nat \<Rightarrow> jsstring \<Rightarrow> bool" where
  "digits n ds \<longleftrightarrow> length ds \<le> n \<and> (\<forall>c\<in>set ds. oneOf digit c)"

definition groups :: "jsstring list \<Rightarrow> jsstring" where
  "groups bs = concat (map (\<lambda>b. ch CHR '';'' # b) bs)"

definition parameterText :: "jsstring \<Rightarrow> bool" where
  "parameterText g \<longleftrightarrow>
     g = [] \<or> (\<exists>d bs. g = d @ groups bs \<and> d \<noteq> [] \<and> digits 4 d \<and> (\<forall>b\<in>set bs. digits 4 b))"

definition codeShape :: "jsstring \<Rightarrow> bool" where
  "codeShape e \<longleftrightarrow>
     (\<exists>c0 p g f. e = c0 # p @ g @ [f] \<and> oneOf introducer c0 \<and>
        (\<forall>c\<in>set p. oneOf punctuation c) \<and> parameterText g \<and>
        oneOf final f \<and> \<not> oneOf digit f)"

text \<open>
  A record with escape codes inserted, as a list of pieces: a code unit of the record, or
  an inserted escape code. \<open>written\<close> is the text with the codes, \<open>plain\<close> the record
  without them. The pieces are \<open>marked\<close> when no code unit of the record is an
  introducer and every inserted text is an escape code.
\<close>

datatype piece = Plain jschar | Escape jsstring

fun written :: "piece list \<Rightarrow> jsstring" where
  "written [] = []"
| "written (Plain c # ps) = c # written ps"
| "written (Escape e # ps) = e @ written ps"

fun plain :: "piece list \<Rightarrow> jsstring" where
  "plain [] = []"
| "plain (Plain c # ps) = c # plain ps"
| "plain (Escape e # ps) = plain ps"

fun marked :: "piece \<Rightarrow> bool" where
  "marked (Plain c) = (\<not> oneOf introducer c)"
| "marked (Escape e) = escapeCode e"

text \<open>
  \<open>contains s t\<close>: the text \<open>t\<close> occurs in \<open>s\<close>, as \<open>s.includes(t)\<close> tells.
\<close>

fun contains :: "jsstring \<Rightarrow> jsstring \<Rightarrow> bool" where
  "contains [] t = (t = [])"
| "contains (c # s) t = (take (length t) (c # s) = t \<or> contains s t)"

section \<open>Evaluation on concrete texts\<close>

lemmas str_eval = js_def ch_def isWhiteSpace_def trimStart_def trim_def split_def element_def

lemmas num_eval = digitValue_def isRadixDigit_def digitsValue_def parseInt_def toDouble_def
  roundNat_def overflowThreshold_def decimalOverflows_def isDigit_def SignedInteger_def
  StrUnsignedDecimalLiteral_def NonDecimalIntegerLiteral_def StringToNumber_def isNumber_def
  zeroBased_def Let_def

lemmas re_eval = single_def fromTo_def introducer_def punctuation_def digit_def parameters_def
  final_def ansiEscapeCode_def ends.simps

lemmas out_eval = unassigned_def trimOf_def fieldSeparator_def invalidOutputFormat_def
  new_Critique_def endOfRecord_def cleaned_def callback_def new_Output_def

lemmas voc_eval = failsValidation_def throws_def pushes_def

section \<open>Numbers: rounding and white space\<close>

lemma toDouble_small: "\<bar>x\<bar> < 2 ^ 53 \<Longrightarrow> toDouble x = Finite x"
proof -
  assume a: "\<bar>x\<bar> < 2 ^ 53"
  then have "nat \<bar>x\<bar> < 2 ^ 53"
    by (simp add: nat_less_iff)
  then have r: "roundNat (nat \<bar>x\<bar>) = nat \<bar>x\<bar>"
    by (simp add: roundNat_def)
  have "(2::nat) ^ 53 < 2 ^ 1024" by simp
  with \<open>nat \<bar>x\<bar> < 2 ^ 53\<close> have "\<not> (2::nat) ^ 1024 \<le> nat \<bar>x\<bar>" by linarith
  then show ?thesis
    by (simp add: toDouble_def r Let_def)
qed

lemma zeroBased_max: "\<not> isNaN x \<Longrightarrow> zeroBased x = Math_max (minus1 x) (Finite 0)"
proof (cases x)
  case (Finite v)
  show ?thesis
  proof (cases "0 < v")
    case True
    then show ?thesis
      by (simp add: zeroBased_def Finite toDouble_def Let_def)
  next
    case False
    then show ?thesis
      by (simp add: zeroBased_def Finite toDouble_def Let_def)
  qed
qed (simp_all add: zeroBased_def)

lemma zeroBased_exact: "n \<le> 2 ^ 53 \<Longrightarrow> zeroBased (Finite n) = Finite (max (n - 1) 0)"
proof (cases "0 < n")
  case True
  assume "n \<le> 2 ^ 53"
  with True have "\<bar>n - 1\<bar> < 2 ^ 53" by simp
  then have "toDouble (n - 1) = Finite (n - 1)" by (rule toDouble_small)
  with True show ?thesis by (simp add: zeroBased_def)
next
  case False
  then show ?thesis by (simp add: zeroBased_def)
qed

lemma ws_not_digit: "isWhiteSpace c \<Longrightarrow> 36 \<le> digitValue c"
  unfolding isWhiteSpace_def digitValue_def
  by (auto simp: word_le_nat_alt)

lemma takeWhile_append_none:
  assumes "\<forall>c\<in>set w. \<not> P c"
  shows "takeWhile P (a @ w) = takeWhile P a"
proof (induction a)
  case Nil
  from assms show ?case by (cases w) simp_all
next
  case (Cons x a)
  then show ?case by simp
qed

lemma take2_append_ws:
  assumes "\<forall>c\<in>set w. isWhiteSpace c" "\<not> isWhiteSpace p" "\<not> isWhiteSpace q"
  shows "take 2 (a @ w) = [p, q] \<longleftrightarrow> take 2 a = [p, q]"
proof (cases a)
  case Nil
  with assms show ?thesis by (cases w) auto
next
  case (Cons x a')
  show ?thesis
  proof (cases a')
    case Nil
    with Cons assms show ?thesis by (cases w) auto
  next
    case (Cons y r)
    with \<open>a = x # a'\<close> show ?thesis by simp
  qed
qed

lemma parseInt_trimStart: "parseInt (trimStart s) = parseInt s"
  by (simp add: parseInt_def trimStart_def)

lemma parseInt_append_ws:
  assumes y: "y \<noteq> []" "\<not> isWhiteSpace (hd y)" and w: "\<forall>c\<in>set w. isWhiteSpace c"
  shows "parseInt (y @ w) = parseInt y"
proof -
  define S1 where "S1 = (\<lambda>S::jsstring. if S \<noteq> [] \<and> (hd S = ch CHR ''+'' \<or> hd S = ch CHR ''-'')
                                    then tl S else S)"
  define hex where "hex = (\<lambda>t::jsstring. take 2 t = js ''0x'' \<or> take 2 t = js ''0X'')"
  have P: "parseInt s =
      (if takeWhile (isRadixDigit (if hex (S1 (trimStart s)) then 16 else 10))
            (if hex (S1 (trimStart s)) then drop 2 (S1 (trimStart s)) else S1 (trimStart s)) = []
       then NaN
       else toDouble
         (if trimStart s \<noteq> [] \<and> hd (trimStart s) = ch CHR ''-''
          then - int (digitsValue (if hex (S1 (trimStart s)) then 16 else 10)
                  (takeWhile (isRadixDigit (if hex (S1 (trimStart s)) then 16 else 10))
                    (if hex (S1 (trimStart s)) then drop 2 (S1 (trimStart s))
                     else S1 (trimStart s))))
          else int (digitsValue (if hex (S1 (trimStart s)) then 16 else 10)
                  (takeWhile (isRadixDigit (if hex (S1 (trimStart s)) then 16 else 10))
                    (if hex (S1 (trimStart s)) then drop 2 (S1 (trimStart s))
                     else S1 (trimStart s))))))" for s
    by (simp add: parseInt_def Let_def S1_def hex_def)
  have ts: "trimStart (y @ w) = y @ w" "trimStart y = y"
    using y by (cases y; simp add: trimStart_def)+
  have S1w: "S1 (y @ w) = S1 y @ w"
    using y(1) by (simp add: S1_def)
  have lit: "js ''0x'' = [0x30, 0x78]" "js ''0X'' = [0x30, 0x58]"
    by (simp_all add: js_def ch_def)
  have nws: "\<not> isWhiteSpace 0x30" "\<not> isWhiteSpace 0x78" "\<not> isWhiteSpace 0x58"
    by (simp_all add: isWhiteSpace_def)
  have hexw: "hex (t @ w) = hex t" for t
    unfolding hex_def lit using take2_append_ws [OF w] nws by simp
  have len: "2 \<le> length t" if "hex t" for t
  proof -
    from that obtain p q where "take 2 t = [p, q]" by (auto simp: hex_def lit)
    then have "length (take 2 t) = length [p, q]" by (rule arg_cong)
    then show ?thesis by simp
  qed
  have nd: "\<forall>c\<in>set w. \<not> isRadixDigit R c" if "R \<le> 16" for R
  proof
    fix c assume "c \<in> set w"
    with w have "36 \<le> digitValue c" by (simp add: ws_not_digit)
    with that show "\<not> isRadixDigit R c" by (simp add: isRadixDigit_def)
  qed
  have Z: "takeWhile (isRadixDigit 16) (t @ w) = takeWhile (isRadixDigit 16) t"
    "takeWhile (isRadixDigit 10) (t @ w) = takeWhile (isRadixDigit 10) t" for t
    using nd [of 16] nd [of 10] by (simp_all add: takeWhile_append_none)
  have hdw: "hd (y @ w) = hd y"
    using y(1) by simp
  show ?thesis
  proof (cases "hex (S1 y)")
    case True
    from len [OF True] have d: "drop 2 (S1 y @ w) = drop 2 (S1 y) @ w" by simp
    show ?thesis
      unfolding P ts S1w hexw hdw using True y(1) by (simp only: if_True d Z) simp
  next
    case False
    show ?thesis
      unfolding P ts S1w hexw hdw using False y(1) by (simp only: if_False Z) simp
  qed
qed

lemma trim_decompose:
  "\<exists>w. trimStart s = trim s @ w \<and> (\<forall>c\<in>set w. isWhiteSpace c) \<and>
       (trim s \<noteq> [] \<longrightarrow> \<not> isWhiteSpace (hd (trim s))) \<and>
       (trim s = [] \<longrightarrow> trimStart s = [])"
proof -
  define x where "x = trimStart s"
  define w where "w = rev (takeWhile isWhiteSpace (rev x))"
  have t: "trim s = rev (dropWhile isWhiteSpace (rev x))"
    by (simp add: trim_def trimStart_def x_def)
  have "x = rev (rev x)"
    by simp
  also have "\<dots> = rev (takeWhile isWhiteSpace (rev x) @ dropWhile isWhiteSpace (rev x))"
    by (simp only: takeWhile_dropWhile_id)
  also have "\<dots> = trim s @ w"
    by (simp only: rev_append t w_def)
  finally have dec: "x = trim s @ w" .
  have ws: "\<forall>c\<in>set w. isWhiteSpace c"
    by (auto simp: w_def dest: set_takeWhileD)
  have hdx: "x \<noteq> [] \<Longrightarrow> \<not> isWhiteSpace (hd x)"
    unfolding x_def trimStart_def by (rule hd_dropWhile)
  have e: "trimStart s = []" if "trim s = []"
  proof (rule ccontr)
    assume "trimStart s \<noteq> []"
    then have "x \<noteq> []" by (simp add: x_def)
    with hdx have "\<not> isWhiteSpace (hd x)" by simp
    moreover from that dec \<open>x \<noteq> []\<close> have "hd x \<in> set w" by (cases w) auto
    ultimately show False using ws by simp
  qed
  have h: "\<not> isWhiteSpace (hd (trim s))" if "trim s \<noteq> []"
  proof -
    from that dec have "hd x = hd (trim s)" "x \<noteq> []" by simp_all
    with hdx show ?thesis by simp
  qed
  from dec ws h e show ?thesis
    unfolding x_def by blast
qed

lemma parseInt_trim: "parseInt (trim s) = parseInt s"
proof -
  obtain w where w: "trimStart s = trim s @ w" "\<forall>c\<in>set w. isWhiteSpace c"
    "trim s \<noteq> [] \<longrightarrow> \<not> isWhiteSpace (hd (trim s))" "trim s = [] \<longrightarrow> trimStart s = []"
    using trim_decompose [of s] by blast
  show ?thesis
  proof (cases "trim s = []")
    case True
    with w(4) have "trimStart s = []" by simp
    then have "parseInt s = parseInt []" by (metis parseInt_trimStart)
    with True show ?thesis by simp
  next
    case False
    with w have "parseInt (trim s @ w) = parseInt (trim s)"
      by (intro parseInt_append_ws) simp_all
    with w(1) show ?thesis by (metis parseInt_trimStart)
  qed
qed

section \<open>The pattern for escape codes\<close>

lemma ends_Class: "ends (Class rs) s = (if s \<noteq> [] \<and> in_class rs (hd s) then [1] else [])"
  by (cases s) (simp_all add: ends.simps)

lemma oneOf_Class: "oneOf (Class rs) c \<longleftrightarrow> in_class rs c"
  by (simp add: oneOf_def ends_Class)

lemma first_Class:
  "first (Class rs) s = (if s \<noteq> [] \<and> oneOf (Class rs) (hd s) then Some 1 else None)"
  by (simp add: first_def ends_Class oneOf_Class)

lemma first_Seq:
  assumes "first a s = Some i" and "first b (drop i s) = Some j"
  shows "first (Seq a b) s = Some (i + j)"
proof -
  from assms(1) obtain ns where a: "ends a s = i # ns"
    by (auto simp: first_def split: list.splits)
  from assms(2) obtain js where b: "ends b (drop i s) = j # js"
    by (auto simp: first_def split: list.splits)
  show ?thesis
    by (simp add: first_def ends.simps a b)
qed

lemma first_Seq_None: "first a s = None \<Longrightarrow> first (Seq a b) s = None"
  by (auto simp: first_def ends.simps split: list.splits)

lemma first_Rep_zero: "first (Rep mn (Some 0) r) s = Some 0"
  by (simp add: first_def ends.simps)

lemma first_Rep_stop: "first r s = None \<Longrightarrow> first (Rep 0 mx r) s = Some 0"
  by (auto simp: first_def ends.simps split: list.splits)

lemma first_Rep_fail: "first r s = None \<Longrightarrow> 0 < mn \<Longrightarrow> mx \<noteq> Some 0 \<Longrightarrow> first (Rep mn mx r) s = None"
  by (auto simp: first_def ends.simps split: list.splits)

lemma first_Rep_step:
  assumes "first r s = Some i" and "mn = 0 \<longrightarrow> i \<noteq> 0" and "mx \<noteq> Some 0"
    and "first (Rep (mn - 1) (map_option (\<lambda>m. m - 1) mx) r) (drop i s) = Some j"
  shows "first (Rep mn mx r) s = Some (i + j)"
proof -
  from assms(1) obtain ns where a: "ends r s = i # ns"
    by (auto simp: first_def split: list.splits)
  from assms(4) obtain js where b:
    "ends (Rep (mn - 1) (map_option (\<lambda>m. m - 1) mx) r) (drop i s) = j # js"
    by (auto simp: first_def split: list.splits)
  show ?thesis
    using assms(2,3) b
    by (auto simp add: first_def ends.simps(3) [of mn mx r s] a simp del: One_nat_def)
qed

text \<open>A greedy run over one class: it takes the whole run when what follows stops it.\<close>

lemma first_run:
  assumes "\<forall>c\<in>set d. oneOf (Class rs) c"
    and "mn \<le> length d"
    and "case mx of None \<Rightarrow> True | Some m \<Rightarrow> length d \<le> m"
    and "s = [] \<or> \<not> oneOf (Class rs) (hd s) \<or> mx = Some (length d)"
  shows "first (Rep mn mx (Class rs)) (d @ s) = Some (length d)"
  using assms
proof (induction d arbitrary: mn mx)
  case Nil
  then have mn: "mn = 0" by simp
  show ?case
  proof (cases "mx = Some 0")
    case True
    then show ?thesis by (simp add: first_Rep_zero)
  next
    case False
    with Nil.prems(4) have "first (Class rs) s = None"
      by (auto simp: first_Class)
    then show ?thesis by (simp add: mn first_Rep_stop)
  qed
next
  case (Cons c d)
  have mx0: "mx \<noteq> Some 0"
    using Cons.prems(3) by (auto split: option.splits)
  have f1: "first (Class rs) ((c # d) @ s) = Some 1"
    using Cons.prems(1) by (simp add: first_Class)
  have "first (Rep (mn - 1) (map_option (\<lambda>m. m - 1) mx) (Class rs)) (d @ s) = Some (length d)"
  proof (rule Cons.IH)
    show "\<forall>c\<in>set d. oneOf (Class rs) c" using Cons.prems(1) by simp
    show "mn - 1 \<le> length d" using Cons.prems(2) by simp
    show "case map_option (\<lambda>m. m - 1) mx of None \<Rightarrow> True | Some m \<Rightarrow> length d \<le> m"
      using Cons.prems(3) by (auto split: option.splits)
    show "s = [] \<or> \<not> oneOf (Class rs) (hd s) \<or> map_option (\<lambda>m. m - 1) mx = Some (length d)"
      using Cons.prems(4) by auto
  qed
  then have "first (Rep (mn - 1) (map_option (\<lambda>m. m - 1) mx) (Class rs))
      (drop 1 ((c # d) @ s)) = Some (length d)"
    by simp
  from first_Rep_step [OF f1 _ mx0 this] show ?case by simp
qed

lemma oneOf_semicolon: "oneOf (Class [single CHR '';'']) c \<longleftrightarrow> c = ch CHR '';''"
  by (auto simp: oneOf_Class single_def)

lemma semicolon_not_digit: "\<not> oneOf digit (ch CHR '';'')"
  by (simp add: oneOf_Class digit_def fromTo_def ch_def)

lemma digit_not_punctuation: "oneOf digit c \<Longrightarrow> \<not> oneOf punctuation c"
  by (auto simp: oneOf_Class digit_def punctuation_def fromTo_def single_def ch_def)

lemma final_not_punctuation: "oneOf final c \<Longrightarrow> \<not> oneOf punctuation c"
  by (auto simp: oneOf_Class final_def punctuation_def fromTo_def single_def ch_def)

lemma final_not_semicolon: "oneOf final c \<Longrightarrow> c \<noteq> ch CHR '';''"
  by (auto simp: oneOf_Class final_def fromTo_def single_def ch_def)

lemma first_groups:
  assumes "\<forall>b\<in>set bs. digits 4 b"
    and "s = [] \<or> (hd s \<noteq> ch CHR '';'' \<and> \<not> oneOf digit (hd s))"
  shows "first (Rep 0 None (Seq (Class [single CHR '';'']) (Rep 0 (Some 4) digit))) (groups bs @ s) =
         Some (length (groups bs))"
  using assms(1)
proof (induction bs)
  case Nil
  have "first (Class [single CHR '';'']) s = None"
    using assms(2) by (auto simp: first_Class oneOf_semicolon)
  then have "first (Seq (Class [single CHR '';'']) (Rep 0 (Some 4) digit)) s = None"
    by (rule first_Seq_None)
  then show ?case
    by (simp add: groups_def first_Rep_stop)
next
  case (Cons b bs)
  let ?X = "Seq (Class [single CHR '';'']) (Rep 0 (Some 4) digit)"
  let ?rest = "groups bs @ s"
  have b: "length b \<le> 4" "\<forall>c\<in>set b. oneOf (Class [fromTo CHR ''0'' CHR ''9'']) c"
    using Cons.prems by (simp_all add: digits_def digit_def)
  have stop: "?rest = [] \<or> \<not> oneOf (Class [fromTo CHR ''0'' CHR ''9'']) (hd ?rest) \<or>
      Some 4 = Some (length b)"
  proof (cases bs)
    case Nil
    with assms(2) show ?thesis by (auto simp: groups_def digit_def)
  next
    case (Cons b' bs')
    then have "hd ?rest = ch CHR '';''" by (simp add: groups_def)
    with semicolon_not_digit show ?thesis by (simp add: digit_def)
  qed
  have run: "first (Rep 0 (Some 4) digit) (b @ ?rest) = Some (length b)"
    unfolding digit_def using b stop by (intro first_run) simp_all
  have semi: "first (Class [single CHR '';'']) (groups (b # bs) @ s) = Some 1"
    by (simp add: groups_def first_Class oneOf_semicolon)
  have "drop 1 (groups (b # bs) @ s) = b @ ?rest"
    by (simp add: groups_def)
  with run have "first (Rep 0 (Some 4) digit) (drop 1 (groups (b # bs) @ s)) = Some (length b)"
    by simp
  with semi have X: "first ?X (groups (b # bs) @ s) = Some (1 + length b)"
    by (rule first_Seq)
  have "drop (1 + length b) (groups (b # bs) @ s) = ?rest"
    by (simp add: groups_def)
  moreover have "first (Rep 0 None ?X) ?rest = Some (length (groups bs))"
    using Cons.IH Cons.prems by simp
  ultimately have next_groups:
    "first (Rep (0 - 1) (map_option (\<lambda>m. m - 1) None) ?X)
       (drop (1 + length b) (groups (b # bs) @ s)) = Some (length (groups bs))"
    by simp
  have "first (Rep 0 None ?X) (groups (b # bs) @ s) = Some ((1 + length b) + length (groups bs))"
    using X _ _ next_groups by (rule first_Rep_step) simp_all
  then show ?case
    by (simp add: groups_def)
qed

lemma first_parameters:
  assumes "d \<noteq> []" and "digits 4 d" and "\<forall>b\<in>set bs. digits 4 b"
    and "s = [] \<or> (hd s \<noteq> ch CHR '';'' \<and> \<not> oneOf digit (hd s))"
  shows "first parameters (d @ groups bs @ s) = Some (length (d @ groups bs))"
proof -
  let ?rest = "groups bs @ s"
  have d: "1 \<le> length d" "length d \<le> 4" "\<forall>c\<in>set d. oneOf (Class [fromTo CHR ''0'' CHR ''9'']) c"
    using assms(1,2) by (simp_all add: digits_def digit_def Suc_le_eq)
  have stop: "?rest = [] \<or> \<not> oneOf (Class [fromTo CHR ''0'' CHR ''9'']) (hd ?rest) \<or>
      Some 4 = Some (length d)"
  proof (cases bs)
    case Nil
    with assms(4) show ?thesis by (auto simp: groups_def digit_def)
  next
    case (Cons b' bs')
    then have "hd ?rest = ch CHR '';''" by (simp add: groups_def)
    with semicolon_not_digit show ?thesis by (simp add: digit_def)
  qed
  have run: "first (Rep 1 (Some 4) digit) (d @ ?rest) = Some (length d)"
    unfolding digit_def using d stop by (intro first_run) simp_all
  have "first (Rep 0 None (Seq (Class [single CHR '';'']) (Rep 0 (Some 4) digit)))
      (drop (length d) (d @ ?rest)) = Some (length (groups bs))"
    using first_groups [OF assms(3,4)] by simp
  with run have "first parameters (d @ ?rest) = Some (length d + length (groups bs))"
    unfolding parameters_def by (rule first_Seq)
  then show ?thesis by simp
qed

lemma first_optional_parameters:
  assumes "parameterText g"
    and "s \<noteq> []" and "hd s \<noteq> ch CHR '';''" and "\<not> oneOf digit (hd s)"
  shows "first (Rep 0 (Some 1) parameters) (g @ s) = Some (length g)"
proof (cases "g = []")
  case True
  have "first digit s = None"
    using assms(4) by (simp add: digit_def first_Class)
  then have "first (Rep 1 (Some 4) digit) s = None"
    by (rule first_Rep_fail) simp_all
  then have "first parameters s = None"
    unfolding parameters_def by (rule first_Seq_None)
  then show ?thesis
    using True by (simp add: first_Rep_stop)
next
  case False
  with assms(1) obtain d bs where g: "g = d @ groups bs" "d \<noteq> []" "digits 4 d"
    "\<forall>b\<in>set bs. digits 4 b"
    by (auto simp: parameterText_def)
  have p: "first parameters (g @ s) = Some (length g)"
    using first_parameters [OF g(2,3,4), of s] assms(3,4) by (simp add: g(1))
  have z: "first (Rep (0 - 1) (map_option (\<lambda>m. m - 1) (Some 1)) parameters)
      (drop (length g) (g @ s)) = Some 0"
    by (simp add: first_Rep_zero)
  have "first (Rep 0 (Some 1) parameters) (g @ s) = Some (length g + 0)"
    using p _ _ z by (rule first_Rep_step) (simp_all add: False)
  then show ?thesis by simp
qed

lemma first_codeShape:
  assumes "codeShape e"
  shows "first ansiEscapeCode (e @ t) = Some (length e)"
proof -
  from assms obtain c0 p g f where e: "e = c0 # p @ g @ [f]" and c0: "oneOf introducer c0"
    and p: "\<forall>c\<in>set p. oneOf punctuation c" and g: "parameterText g"
    and f: "oneOf final f" "\<not> oneOf digit f"
    by (auto simp: codeShape_def)
  let ?tail = "f # t"
  have fin: "first final ?tail = Some 1"
    using f(1) by (simp add: final_def first_Class)
  have opt: "first (Rep 0 (Some 1) parameters) (g @ ?tail) = Some (length g)"
    using g f by (intro first_optional_parameters) (simp_all add: final_not_semicolon)
  have "first final (drop (length g) (g @ ?tail)) = Some 1"
    using fin by simp
  with opt have of: "first (Seq (Rep 0 (Some 1) parameters) final) (g @ ?tail) = Some (length g + 1)"
    by (rule first_Seq)
  have hd_not: "\<not> oneOf punctuation (hd (g @ ?tail))"
  proof (cases "g = []")
    case True
    with f(1) show ?thesis by (simp add: final_not_punctuation)
  next
    case False
    with g obtain d bs where "g = d @ groups bs" "d \<noteq> []" "digits 4 d"
      by (auto simp: parameterText_def)
    then have "hd (g @ ?tail) = hd d" "oneOf digit (hd d)"
      by (simp_all add: digits_def)
    then show ?thesis by (simp add: digit_not_punctuation)
  qed
  have star: "first (Rep 0 None punctuation) (p @ (g @ ?tail)) = Some (length p)"
    unfolding punctuation_def
    using p hd_not by (intro first_run) (simp_all add: punctuation_def)
  have "first (Seq (Rep 0 (Some 1) parameters) final) (drop (length p) (p @ (g @ ?tail))) =
      Some (length g + 1)"
    using of by simp
  with star have rest:
    "first (Seq (Rep 0 None punctuation) (Seq (Rep 0 (Some 1) parameters) final))
       (p @ (g @ ?tail)) = Some (length p + (length g + 1))"
    by (rule first_Seq)
  have intro: "first introducer (e @ t) = Some 1"
    using c0 by (simp add: e introducer_def first_Class)
  have "drop 1 (e @ t) = p @ (g @ ?tail)"
    by (simp add: e)
  with rest have "first (Seq (Rep 0 None punctuation) (Seq (Rep 0 (Some 1) parameters) final))
      (drop 1 (e @ t)) = Some (length p + (length g + 1))"
    by simp
  with intro have "first ansiEscapeCode (e @ t) = Some (1 + (length p + (length g + 1)))"
    unfolding ansiEscapeCode_def by (rule first_Seq)
  then show ?thesis by (simp add: e)
qed

lemma codeShape_matched: "codeShape e \<Longrightarrow> length e \<in> set (ends ansiEscapeCode e)"
  using first_codeShape [of e "[]"] by (auto simp: first_def split: list.splits)

lemma replace_first:
  "replace r (c # cs) =
     (case first r (c # cs) of
        None \<Rightarrow> c # replace r cs
      | Some n \<Rightarrow> if n = 0 then c # replace r cs else replace r (drop (n - 1) cs))"
  by (simp add: first_def split: list.splits)

lemma replace_plain:
  assumes "\<not> oneOf introducer c"
  shows "replace ansiEscapeCode (c # s) = c # replace ansiEscapeCode s"
proof -
  have "first introducer (c # s) = None"
    using assms by (simp add: introducer_def first_Class)
  then have "first ansiEscapeCode (c # s) = None"
    unfolding ansiEscapeCode_def by (rule first_Seq_None)
  then show ?thesis
    by (subst replace_first) simp
qed

lemma mem_Class:
  "n \<in> set (ends (Class rs) s) \<longleftrightarrow> n = 1 \<and> s \<noteq> [] \<and> oneOf (Class rs) (hd s)"
  by (auto simp: ends_Class oneOf_Class)

lemma mem_Seq:
  "n \<in> set (ends (Seq a b) s) \<longleftrightarrow>
     (\<exists>i j. i \<in> set (ends a s) \<and> j \<in> set (ends b (drop i s)) \<and> n = i + j)"
  by (auto simp: ends.simps)

lemma mem_Rep:
  "n \<in> set (ends (Rep mn mx r) s) \<longleftrightarrow>
     (if mx = Some 0 then n = 0
      else (\<exists>i j. i \<in> set (ends r s) \<and> \<not> (mn = 0 \<and> i = 0) \<and>
                   j \<in> set (ends (Rep (mn - 1) (map_option (\<lambda>m. m - 1) mx) r) (drop i s)) \<and>
                   n = i + j) \<or> (mn = 0 \<and> n = 0))"
  by (subst ends.simps) (auto split: if_splits)

lemma mem_run:
  "n \<in> set (ends (Rep mn mx (Class rs)) s) \<Longrightarrow> mn \<le> (case mx of None \<Rightarrow> mn | Some m \<Rightarrow> m) \<Longrightarrow>
   n \<le> length s \<and> (\<forall>c\<in>set (take n s). oneOf (Class rs) c) \<and> mn \<le> n \<and>
   (case mx of None \<Rightarrow> True | Some m \<Rightarrow> n \<le> m)"
proof (induction s arbitrary: n mn mx)
  case Nil
  then show ?case
    by (subst (asm) mem_Rep) (auto simp: mem_Class split: if_splits option.splits)
next
  case (Cons c cs)
  show ?case
  proof (cases "mx = Some 0")
    case True
    with Cons.prems show ?thesis
      by (subst (asm) mem_Rep) simp
  next
    case False
    from Cons.prems(1) False consider
      (stop) "mn = 0" "n = 0"
      | (step) j where "oneOf (Class rs) c"
          "j \<in> set (ends (Rep (mn - 1) (map_option (\<lambda>m. m - 1) mx) (Class rs)) cs)" "n = 1 + j"
      by (subst (asm) mem_Rep) (auto simp: mem_Class)
    then show ?thesis
    proof cases
      case stop
      then show ?thesis by (simp split: option.splits)
    next
      case step
      have "mn - 1 \<le> (case map_option (\<lambda>m. m - 1) mx of None \<Rightarrow> mn - 1 | Some m \<Rightarrow> m)"
        using Cons.prems(2) by (auto split: option.splits)
      from Cons.IH [OF step(2) this] step(1,3) False Cons.prems(2) show ?thesis
        by (auto split: option.splits)
    qed
  qed
qed

lemma mem_groups:
  "n \<in> set (ends (Rep 0 None (Seq (Class [single CHR '';'']) (Rep 0 (Some 4) digit))) s) \<Longrightarrow>
   n \<le> length s \<and> (\<exists>bs. take n s = groups bs \<and> (\<forall>b\<in>set bs. digits 4 b))"
proof (induction "length s" arbitrary: s n rule: less_induct)
  case less
  let ?X = "Seq (Class [single CHR '';'']) (Rep 0 (Some 4) digit)"
  from less.prems consider
    (stop) "n = 0"
    | (step) i j where "i \<in> set (ends ?X s)" "i \<noteq> 0"
        "j \<in> set (ends (Rep 0 None ?X) (drop i s))" "n = i + j"
    by (subst (asm) mem_Rep) auto
  then show ?case
  proof cases
    case stop
    have "take 0 s = groups []" by (simp add: groups_def)
    with stop show ?thesis by fastforce
  next
    case step
    from step(1) obtain k where k: "s \<noteq> []" "hd s = ch CHR '';''"
      "k \<in> set (ends (Rep 0 (Some 4) digit) (drop 1 s))" "i = 1 + k"
      by (auto simp: mem_Seq mem_Class oneOf_semicolon)
    from k(3) have run: "k \<le> length (drop 1 s)" "\<forall>c\<in>set (take k (drop 1 s)). oneOf digit c"
      "k \<le> 4"
      using mem_run [of k 0 "Some 4" "[fromTo CHR ''0'' CHR ''9'']" "drop 1 s"]
      by (simp_all add: digit_def)
    have shorter: "length (drop i s) < length s"
      using k(1,4) by (cases s) simp_all
    from less.hyps [OF shorter step(3)] obtain bs where bs:
      "j \<le> length (drop i s)" "take j (drop i s) = groups bs" "\<forall>b\<in>set bs. digits 4 b"
      by blast
    have i_le: "i \<le> length s"
      using run(1) k(1,4) by (cases s) simp_all
    have "take i s = ch CHR '';'' # take k (drop 1 s)"
      using k(1,2,4) by (cases s) simp_all
    moreover have "take n s = take i s @ take j (drop i s)"
      unfolding step(4) by (simp add: take_add)
    ultimately have "take n s = groups (take k (drop 1 s) # bs)"
      using bs(2) by (simp add: groups_def)
    moreover have "digits 4 (take k (drop 1 s))"
      using run by (simp add: digits_def)
    moreover have "n \<le> length s"
      using bs(1) i_le step(4) by simp
    ultimately show ?thesis
      using bs(3) by (intro conjI exI [of _ "take k (drop 1 s) # bs"]) simp_all
  qed
qed

lemma mem_parameters:
  assumes "n \<in> set (ends parameters s)"
  shows "n \<le> length s \<and> n \<noteq> 0 \<and> parameterText (take n s)"
proof -
  from assms obtain i j where i: "i \<in> set (ends (Rep 1 (Some 4) digit) s)"
    and j: "j \<in> set (ends (Rep 0 None (Seq (Class [single CHR '';'']) (Rep 0 (Some 4) digit)))
        (drop i s))"
    and n: "n = i + j"
    by (auto simp: parameters_def mem_Seq)
  from i have run: "i \<le> length s" "\<forall>c\<in>set (take i s). oneOf digit c" "1 \<le> i" "i \<le> 4"
    using mem_run [of i 1 "Some 4" "[fromTo CHR ''0'' CHR ''9'']" s]
    by (simp_all add: digit_def)
  from mem_groups [OF j] obtain bs where bs:
    "j \<le> length (drop i s)" "take j (drop i s) = groups bs" "\<forall>b\<in>set bs. digits 4 b"
    by blast
  have "take n s = take i s @ groups bs"
    unfolding n using bs(2) by (simp add: take_add)
  moreover have "take i s \<noteq> []" "digits 4 (take i s)"
    using run by (auto simp: digits_def)
  ultimately have "parameterText (take n s)"
    using bs(3) unfolding parameterText_def by blast
  moreover have "n \<le> length s" "n \<noteq> 0"
    using run bs(1) n by simp_all
  ultimately show ?thesis by simp
qed

lemma mem_optional_parameters:
  assumes "n \<in> set (ends (Rep 0 (Some 1) parameters) s)"
  shows "n \<le> length s \<and> parameterText (take n s)"
proof -
  from assms consider
    (none) "n = 0"
    | (some) i j where "i \<in> set (ends parameters s)"
        "j \<in> set (ends (Rep 0 (Some 0) parameters) (drop i s))" "n = i + j"
    by (subst (asm) mem_Rep) auto
  then show ?thesis
  proof cases
    case none
    then show ?thesis by (simp add: parameterText_def)
  next
    case some
    from some(2) have "j = 0" by (subst (asm) mem_Rep) simp
    with some(1,3) mem_parameters [of i s] show ?thesis by simp
  qed
qed

lemma mem_punctuation:
  assumes "n \<in> set (ends (Rep 0 None punctuation) s)"
  shows "n \<le> length s \<and> (\<forall>c\<in>set (take n s). oneOf punctuation c)"
  using assms mem_run [of n 0 None _ s] unfolding punctuation_def by simp

lemma mem_ansiEscapeCode:
  assumes "n \<in> set (ends ansiEscapeCode s)"
  shows "n \<le> length s \<and>
     (\<exists>c0 p g f. take n s = c0 # p @ g @ [f] \<and> oneOf introducer c0 \<and>
        (\<forall>c\<in>set p. oneOf punctuation c) \<and> parameterText g \<and> oneOf final f)"
proof -
  from assms obtain i n1 where
    i: "i \<in> set (ends introducer s)" and
    n1: "n1 \<in> set (ends (Seq (Rep 0 None punctuation) (Seq (Rep 0 (Some 1) parameters) final))
          (drop i s))" and
    n: "n = i + n1"
    unfolding ansiEscapeCode_def by (subst (asm) mem_Seq) blast
  from n1 obtain j n2 where
    j: "j \<in> set (ends (Rep 0 None punctuation) (drop i s))" and
    n2: "n2 \<in> set (ends (Seq (Rep 0 (Some 1) parameters) final) (drop j (drop i s)))" and
    n1_eq: "n1 = j + n2"
    by (subst (asm) mem_Seq) blast
  from n2 obtain k m where
    k: "k \<in> set (ends (Rep 0 (Some 1) parameters) (drop j (drop i s)))" and
    m: "m \<in> set (ends final (drop k (drop j (drop i s))))" and
    n2_eq: "n2 = k + m"
    by (subst (asm) mem_Seq) blast
  have n: "n = i + (j + (k + m))"
    using n n1_eq n2_eq by simp
  from i have i1: "i = 1" "s \<noteq> []" "oneOf introducer (hd s)"
    by (simp_all add: introducer_def mem_Class)
  from mem_punctuation [OF j] have pj: "j \<le> length (drop i s)"
    "\<forall>c\<in>set (take j (drop i s)). oneOf punctuation c"
    by simp_all
  from mem_optional_parameters [OF k] have pk: "k \<le> length (drop j (drop i s))"
    "parameterText (take k (drop j (drop i s)))"
    by simp_all
  let ?r = "drop k (drop j (drop i s))"
  from m have pm: "m = 1" "?r \<noteq> []" "oneOf final (hd ?r)"
    by (simp_all add: final_def mem_Class)
  have "take n s = take i s @ take j (drop i s) @ take k (drop j (drop i s)) @ take m ?r"
    unfolding n by (simp add: take_add)
  moreover have "take i s = [hd s]"
    using i1 by (cases s) simp_all
  moreover have "take m ?r = [hd ?r]"
    using pm by (cases ?r) simp_all
  ultimately have shape: "take n s =
      hd s # take j (drop i s) @ take k (drop j (drop i s)) @ [hd ?r]"
    by simp
  have "n \<le> length s"
    using i1 pj(1) pk(1) pm n by (cases s) (simp_all add: Suc_le_eq)
  moreover have "\<exists>c0 p g f. take n s = c0 # p @ g @ [f] \<and> oneOf introducer c0 \<and>
        (\<forall>c\<in>set p. oneOf punctuation c) \<and> parameterText g \<and> oneOf final f"
    using shape i1(3) pj(2) pk(2) pm(3)
    by (intro exI [of _ "hd s"] exI [of _ "take j (drop i s)"]
        exI [of _ "take k (drop j (drop i s))"] exI [of _ "hd ?r"]) simp
  ultimately show ?thesis
    by simp
qed

lemma escapeCode_iff: "escapeCode e \<longleftrightarrow> codeShape e"
proof
  assume a: "escapeCode e"
  then have "\<exists>c0 p g f. take (length e) e = c0 # p @ g @ [f] \<and> oneOf introducer c0 \<and>
        (\<forall>c\<in>set p. oneOf punctuation c) \<and> parameterText g \<and> oneOf final f"
    using mem_ansiEscapeCode [of "length e" e] by (simp add: escapeCode_def)
  then obtain c0 p g f where s: "e = c0 # p @ g @ [f]" "oneOf introducer c0"
    "\<forall>c\<in>set p. oneOf punctuation c" "parameterText g" "oneOf final f"
    by auto
  from s(1) have "last e = f" by simp
  with a have "\<not> oneOf digit f" by (simp add: escapeCode_def)
  with s show "codeShape e"
    unfolding codeShape_def by blast
next
  assume e: "codeShape e"
  then obtain c0 p g f where "e = c0 # p @ g @ [f]" "\<not> oneOf digit f"
    unfolding codeShape_def by blast
  then have "\<not> oneOf digit (last e)"
    by simp
  with e show "escapeCode e"
    by (simp add: escapeCode_def codeShape_matched)
qed

lemma replace_escapeCode:
  assumes "escapeCode e"
  shows "replace ansiEscapeCode (e @ t) = replace ansiEscapeCode t"
proof -
  from assms have shape: "codeShape e"
    by (simp add: escapeCode_iff)
  then obtain c0 u where e: "e = c0 # u"
    by (auto simp: codeShape_def)
  have "first ansiEscapeCode (c0 # (u @ t)) = Some (Suc (length u))"
    using first_codeShape [OF shape, of t] by (simp add: e)
  then show ?thesis
    unfolding e append_Cons by (subst replace_first) simp
qed

lemma replace_written: "list_all marked ps \<Longrightarrow> replace ansiEscapeCode (written ps) = plain ps"
proof (induction ps)
  case Nil
  then show ?case by simp
next
  case (Cons x ps)
  then show ?case
    by (cases x) (simp_all add: replace_plain replace_escapeCode del: replace.simps)
qed

section \<open>The constructor of Critique, the callback and the loop\<close>

lemma isNumber_None [simp]: "\<not> isNumber None"
  by (simp add: isNumber_def)

lemma invalidOutputFormat_nonempty [simp]: "invalidOutputFormat \<noteq> []"
  by (simp add: invalidOutputFormat_def js_def)

lemma new_Critique_empty: "new_Critique [] = Inr unassigned"
  by (simp add: new_Critique_def)

lemma new_Critique_fails:
  "failsValidation text \<Longrightarrow>
   new_Critique text = Inr (unassigned\<lparr>Critique.error := Some (invalidOutputFormat @ text)\<rparr>)"
  by (auto simp: new_Critique_def failsValidation_def Let_def)

lemma new_Critique_valid:
  assumes "text \<noteq> []" "\<not> failsValidation text"
  shows "new_Critique text =
     (case split fieldSeparator text of
        l # c # v # sm # ex # rest \<Rightarrow>
          Inr \<lparr>Critique.line = Some (zeroBased (parseInt (trim l))),
               Critique.column = Some (zeroBased (parseInt (trim c))),
               Critique.severity = Some (zeroBased (parseInt (trim v))),
               Critique.summary = Some (trim sm),
               Critique.explanation = Some (trim ex),
               Critique.error = None\<rparr>
      | _ \<Rightarrow> Inl TypeError)"
proof -
  obtain parts where parts: "split fieldSeparator text = parts" by simp
  from assms have num: "isNumber (element parts 0)" "isNumber (element parts 1)"
    "isNumber (element parts 2)"
    by (auto simp: failsValidation_def parts)
  then have len: "3 \<le> length parts"
    by (cases "2 < length parts") (auto simp: element_def)
  then obtain l c v more where p3: "parts = l # c # v # more"
    by (cases parts; cases "tl parts"; cases "tl (tl parts)") auto
  show ?thesis
    using assms(1) num
    by (cases more; cases "tl more")
       (auto simp: new_Critique_def parts p3 Let_def element_def trimOf_def)
qed

lemma new_Critique_error_iff:
  "new_Critique text = Inr c \<Longrightarrow> truthyString (Critique.error c) \<longleftrightarrow> failsValidation text"
proof (cases "text = []")
  case True
  assume "new_Critique text = Inr c"
  with True show ?thesis by (auto simp: new_Critique_empty unassigned_def failsValidation_def)
next
  case False
  assume c: "new_Critique text = Inr c"
  show ?thesis
  proof (cases "failsValidation text")
    case True
    with c show ?thesis by (auto simp: new_Critique_fails unassigned_def)
  next
    case fv: False
    with c False show ?thesis
      by (auto simp: new_Critique_valid split: list.splits)
  qed
qed

lemma cleaned_blank: "trim seg = [] \<Longrightarrow> cleaned seg = []"
  by (simp add: cleaned_def)

lemma callback_throws: "throws seg \<Longrightarrow> callback this seg = Inl TypeError"
  by (simp add: callback_def throws_def)

lemma callback_fails:
  "failsValidation (cleaned seg) \<Longrightarrow>
   callback this seg = Inr (this\<lparr>Output.error := Some (invalidOutputFormat @ cleaned seg)\<rparr>)"
  by (simp add: callback_def new_Critique_fails unassigned_def Let_def)

lemma pushes_fails: "failsValidation (cleaned seg) \<Longrightarrow> pushes seg = []"
  by (simp add: pushes_def new_Critique_fails unassigned_def)

lemma callback_valid:
  assumes "\<not> throws seg" "\<not> failsValidation (cleaned seg)"
  shows "callback this seg = Inr (this\<lparr>critiques := critiques this @ pushes seg\<rparr>)"
proof -
  from assms(1) obtain c where c: "new_Critique (cleaned seg) = Inr c"
    by (cases "new_Critique (cleaned seg)") (auto simp: throws_def intro: exception.exhaust)
  with assms(2) have "\<not> truthyString (Critique.error c)"
    by (simp add: new_Critique_error_iff)
  with c show ?thesis
    by (simp add: callback_def pushes_def Let_def)
qed

lemma callback_blank: "trim seg = [] \<Longrightarrow> callback this seg = Inr this"
  by (simp add: callback_def cleaned_blank new_Critique_empty unassigned_def Let_def)

lemma forEach_callback:
  "\<forall>seg\<in>set segs. \<not> throws seg \<Longrightarrow>
   forEach callback segs this =
     Inr (this\<lparr>Output.error := lastError (Output.error this) segs,
               critiques := critiques this @ concat (map pushes segs)\<rparr>)"
proof (induction segs arbitrary: this)
  case Nil
  then show ?case by (simp add: lastError_def)
next
  case (Cons seg segs)
  show ?case
  proof (cases "failsValidation (cleaned seg)")
    case True
    with Cons show ?thesis
      by (simp add: callback_fails pushes_fails lastError_def)
  next
    case False
    with Cons show ?thesis
      by (simp add: callback_valid lastError_def)
  qed
qed

lemma forEach_callback_throws:
  "\<exists>seg\<in>set segs. throws seg \<Longrightarrow> forEach callback segs this = Inl TypeError"
proof (induction segs arbitrary: this)
  case Nil
  then show ?case by simp
next
  case (Cons seg segs)
  show ?case
  proof (cases "throws seg")
    case True
    then show ?thesis by (simp add: callback_throws)
  next
    case False
    with Cons.prems have "\<exists>seg\<in>set segs. throws seg" by simp
    then have "\<And>this'. forEach callback segs this' = Inl TypeError"
      by (rule Cons.IH)
    then show ?thesis
      by (cases "callback this seg") (auto intro: exception.exhaust)
  qed
qed

lemma forEach_callback_blank:
  "\<forall>seg\<in>set segs. trim seg = [] \<Longrightarrow> forEach callback segs this = Inr this"
  by (induction segs) (simp_all add: callback_blank)

lemma new_Output_no_stderr:
  "\<not> truthyString errorStr \<Longrightarrow>
   new_Output stdoutText errorStr =
     forEach callback (split endOfRecord stdoutText) \<lparr>Output.error = None, critiques = []\<rparr>"
proof (cases "stdoutText = []")
  case True
  assume "\<not> truthyString errorStr"
  with True show ?thesis
    by (simp add: new_Output_def split_def callback_blank trim_def trimStart_def)
next
  case False
  assume "\<not> truthyString errorStr"
  with False show ?thesis
    by (simp add: new_Output_def)
qed

lemma split_Nil: "split sep [] = [[]]"
  by (simp add: split_def)

lemma throws_iff:
  "throws seg \<longleftrightarrow>
     cleaned seg \<noteq> [] \<and> \<not> failsValidation (cleaned seg) \<and>
     length (split fieldSeparator (cleaned seg)) < 5"
proof (cases "cleaned seg = []")
  case True
  then show ?thesis by (simp add: throws_def new_Critique_empty)
next
  case False
  show ?thesis
  proof (cases "failsValidation (cleaned seg)")
    case True
    then show ?thesis by (simp add: throws_def new_Critique_fails)
  next
    case fv: False
    with False show ?thesis
      by (auto simp: throws_def new_Critique_valid split: list.splits)
  qed
qed

lemma lastError_Cons:
  "lastError e (seg # segs) =
     lastError (if failsValidation (cleaned seg) then Some (invalidOutputFormat @ cleaned seg) else e) segs"
  by (simp add: lastError_def)

lemma lastError_append: "lastError e (xs @ ys) = lastError (lastError e xs) ys"
  by (simp add: lastError_def)

lemma lastError_none:
  "\<forall>seg\<in>set segs. \<not> failsValidation (cleaned seg) \<Longrightarrow> lastError e segs = e"
  by (induction segs arbitrary: e) (simp_all add: lastError_def)

lemma lastError_some:
  "\<exists>seg\<in>set segs. failsValidation (cleaned seg) \<Longrightarrow>
   \<exists>bad\<in>set segs. failsValidation (cleaned bad) \<and>
      lastError e segs = Some (invalidOutputFormat @ cleaned bad)"
proof (induction segs arbitrary: e)
  case Nil
  then show ?case by simp
next
  case (Cons seg segs)
  show ?case
  proof (cases "\<exists>s\<in>set segs. failsValidation (cleaned s)")
    case True
    then show ?thesis
      using Cons.IH by (fastforce simp: lastError_Cons)
  next
    case False
    with Cons.prems have f: "failsValidation (cleaned seg)" by auto
    from False have "\<And>e. lastError e segs = e" by (simp add: lastError_none)
    with f show ?thesis by (simp add: lastError_Cons)
  qed
qed

lemma new_Output_result:
  assumes "\<not> truthyString errorStr"
    and "\<forall>seg\<in>set (split endOfRecord stdoutText). \<not> throws seg"
  shows "new_Output stdoutText errorStr =
     Inr \<lparr>Output.error = lastError None (split endOfRecord stdoutText),
          critiques = concat (map pushes (split endOfRecord stdoutText))\<rparr>"
  using assms by (simp add: new_Output_no_stderr forEach_callback)

lemma new_Output_throws:
  assumes "\<not> truthyString errorStr"
    and "\<exists>seg\<in>set (split endOfRecord stdoutText). throws seg"
  shows "new_Output stdoutText errorStr = Inl TypeError"
  using assms by (simp add: new_Output_no_stderr forEach_callback_throws)

lemma new_Output_returns:
  assumes "\<not> truthyString errorStr" and "new_Output stdoutText errorStr = Inr out"
  shows "\<forall>seg\<in>set (split endOfRecord stdoutText). \<not> throws seg"
proof (rule ccontr)
  assume "\<not> (\<forall>seg\<in>set (split endOfRecord stdoutText). \<not> throws seg)"
  then have "\<exists>seg\<in>set (split endOfRecord stdoutText). throws seg" by simp
  with assms(1) have "new_Output stdoutText errorStr = Inl TypeError" by (rule new_Output_throws)
  with assms(2) show False by simp
qed

lemma foldl_snoc_map: "foldl (\<lambda>ds c. ds @ [f c]) acc cs = acc @ map f cs"
  by (induction cs arbitrary: acc) simp_all

lemma diagnostics_map: "diagnostics cap u cs = map (diagnostic cap u) cs"
  by (simp add: diagnostics_def foldl_snoc_map)

lemma isNumber_parseInt: "isNumber (Some s) \<Longrightarrow> \<not> isNaN (parseInt (trim s))"
  by (simp add: isNumber_def parseInt_trim)

section \<open>White space and escape codes at the ends of a record\<close>

text \<open>
  \<open>trim\<close> runs before the escape codes are deleted, so white space next to a code at
  either end of a record survives it. The lemmas below show that such white space changes
  neither the validation nor the \<open>Critique\<close> built, and that trimming a text with
  escape codes removes white space of the record only.
\<close>

lemma trim_ends:
  assumes "trim s \<noteq> []"
  shows "\<not> isWhiteSpace (hd (trim s)) \<and> \<not> isWhiteSpace (last (trim s))"
proof -
  let ?l = "dropWhile isWhiteSpace (rev (trimStart s))"
  have t: "trim s = rev ?l"
    by (simp add: trim_def trimStart_def)
  with assms have "?l \<noteq> []" by simp
  then have "\<not> isWhiteSpace (hd ?l)" by (rule hd_dropWhile)
  moreover have "last (trim s) = hd ?l"
    unfolding t using \<open>?l \<noteq> []\<close> by (simp add: last_rev)
  moreover have "\<not> isWhiteSpace (hd (trim s))"
    using trim_decompose [of s] assms by blast
  ultimately show ?thesis by simp
qed

lemma trim_fixed:
  assumes "s = [] \<or> (\<not> isWhiteSpace (hd s) \<and> \<not> isWhiteSpace (last s))"
  shows "trim s = s"
proof (cases "s = []")
  case True
  then show ?thesis by (simp add: trim_def trimStart_def)
next
  case False
  with assms have h: "\<not> isWhiteSpace (hd s)" "\<not> isWhiteSpace (last s)" by simp_all
  from False h(1) have a: "dropWhile isWhiteSpace s = s"
    by (simp add: dropWhile_eq_self_iff)
  from False h(2) have "dropWhile isWhiteSpace (rev s) = rev s"
    by (simp add: dropWhile_eq_self_iff hd_rev)
  with a show ?thesis by (simp add: trim_def trimStart_def)
qed

lemma trim_idem: "trim (trim s) = trim s"
  using trim_ends [of s] by (intro trim_fixed) blast

lemma trim_prepend_ws: "\<forall>c\<in>set a. isWhiteSpace c \<Longrightarrow> trim (a @ s) = trim s"
  by (simp add: trim_def trimStart_def)

lemma trim_append_ws:
  assumes "\<forall>c\<in>set b. isWhiteSpace c"
  shows "trim (s @ b) = trim s"
proof (cases "\<forall>c\<in>set s. isWhiteSpace c")
  case True
  with assms have h: "dropWhile isWhiteSpace (s @ b) = []" "dropWhile isWhiteSpace s = []"
    by simp_all
  show ?thesis by (simp only: trim_def trimStart_def h)
next
  case False
  then obtain x where "x \<in> set s" "\<not> isWhiteSpace x" by blast
  then have "dropWhile isWhiteSpace (s @ b) = dropWhile isWhiteSpace s @ b"
    by (rule dropWhile_append1)
  moreover have "dropWhile isWhiteSpace (rev b @ z) = dropWhile isWhiteSpace z" for z
    using assms by (intro dropWhile_append2) simp
  ultimately show ?thesis by (simp add: trim_def trimStart_def)
qed

lemma length_trim: "length (trim s) \<le> length s"
proof -
  have "length (trim s) \<le> length (trimStart s)"
    unfolding trim_def trimStart_def length_rev
    using length_dropWhile_le [of isWhiteSpace "rev (dropWhile isWhiteSpace s)"] by simp
  also have "\<dots> \<le> length s"
    unfolding trimStart_def by (rule length_dropWhile_le)
  finally show ?thesis .
qed

lemma set_trim: "c \<in> set (trim s) \<Longrightarrow> c \<in> set s"
  unfolding trim_def trimStart_def by (auto dest!: set_dropWhileD)

lemma isNumber_trim: "isNumber (Some (trim f)) = isNumber (Some f)"
  by (simp add: isNumber_def parseInt_trim StringToNumber_def trim_idem)

lemma split_from_nonempty: "split_from sep acc s \<noteq> []"
  by (induction sep acc s rule: split_from.induct) simp_all

lemma split_from_acc:
  "split_from sep acc s = (acc @ hd (split_from sep [] s)) # tl (split_from sep [] s)"
proof (induction s arbitrary: acc)
  case Nil
  then show ?case by simp
next
  case (Cons c cs)
  show ?case
  proof (cases "take (length sep) (c # cs) = sep")
    case True
    then show ?thesis by simp
  next
    case False
    have "split_from sep (acc @ [c]) cs =
        ((acc @ [c]) @ hd (split_from sep [] cs)) # tl (split_from sep [] cs)"
      by (rule Cons.IH)
    moreover have "split_from sep [c] cs =
        ([c] @ hd (split_from sep [] cs)) # tl (split_from sep [] cs)"
      by (rule Cons.IH)
    ultimately show ?thesis using False by simp
  qed
qed

lemma split_from_ws_prefix:
  assumes "\<forall>c\<in>set a. isWhiteSpace c" and "sep \<noteq> []" and "\<not> isWhiteSpace (hd sep)"
  shows "split_from sep acc (a @ s) = split_from sep (acc @ a) s"
  using assms(1)
proof (induction a arbitrary: acc)
  case Nil
  then show ?case by simp
next
  case (Cons c a)
  have "take (length sep) (c # a @ s) \<noteq> sep"
  proof
    assume "take (length sep) (c # a @ s) = sep"
    then have "hd sep = hd (take (length sep) (c # a @ s))" by simp
    also have "\<dots> = c" using assms(2) by (cases sep) simp_all
    finally show False using Cons.prems assms(3) by simp
  qed
  then show ?case using Cons by simp
qed

lemma take_append_ws_neq:
  assumes "take n s \<noteq> sep" and "length sep = n" and "\<forall>c\<in>set b. isWhiteSpace c"
    and "\<forall>c\<in>set sep. \<not> isWhiteSpace c"
  shows "take n (s @ b) \<noteq> sep"
proof (cases "n \<le> length s")
  case True
  with assms(1) show ?thesis by simp
next
  case False
  show ?thesis
  proof
    assume eq: "take n (s @ b) = sep"
    have "take n (s @ b) = s @ take (n - length s) b"
      using False by simp
    with eq have sep: "sep = s @ take (n - length s) b" by simp
    show False
    proof (cases "take (n - length s) b = []")
      case True
      with sep have "sep = s" by simp
      with assms(1,2) show False by simp
    next
      case nonempty: False
      then obtain c where "c \<in> set (take (n - length s) b)"
        by (cases "take (n - length s) b") auto
      then have "c \<in> set b" "c \<in> set sep"
        using sep by (auto dest: in_set_takeD)
      with assms(3,4) show False by blast
    qed
  qed
qed

lemma split_from_ws_suffix:
  assumes "\<forall>c\<in>set b. isWhiteSpace c" and "sep \<noteq> []" and "\<forall>c\<in>set sep. \<not> isWhiteSpace c"
  shows "split_from sep acc (s @ b) =
     butlast (split_from sep acc s) @ [last (split_from sep acc s) @ b]"
  using assms
proof (induction sep acc s rule: split_from.induct)
  case (1 sep acc)
  have "\<not> isWhiteSpace (hd sep)"
    using "1.prems"(2,3) by (simp add: hd_in_set)
  with "1.prems"(1,2) have "split_from sep acc (b @ []) = split_from sep (acc @ b) []"
    by (rule split_from_ws_prefix)
  then show ?case by simp
next
  case (2 sep acc c cs)
  show ?case
  proof (cases "take (length sep) (c # cs) = sep")
    case True
    then have "length (take (length sep) (c # cs)) = length sep" by simp
    then have len: "length sep \<le> length (c # cs)" by simp
    have "take (length sep) ((c # cs) @ b) =
        take (length sep) (c # cs) @ take (length sep - length (c # cs)) b"
      by (rule take_append)
    with len True have t: "take (length sep) ((c # cs) @ b) = sep"
      by (simp only: diff_is_0_eq [THEN iffD2] take_0 append_Nil2)
    have d: "drop (length sep - 1) (cs @ b) = drop (length sep - 1) cs @ b"
      using len by simp
    have ih: "split_from sep [] (drop (length sep - 1) cs @ b) =
        butlast (split_from sep [] (drop (length sep - 1) cs)) @
        [last (split_from sep [] (drop (length sep - 1) cs)) @ b]"
      using "2.IH"(1) True "2.prems" by simp
    have "split_from sep acc ((c # cs) @ b) =
        acc # split_from sep [] (drop (length sep - 1) cs @ b)"
      using t d by simp
    then show ?thesis
      using True ih by (simp add: split_from_nonempty)
  next
    case False
    have "take (length sep) ((c # cs) @ b) \<noteq> sep"
      using False _ "2.prems"(1,3) by (rule take_append_ws_neq) simp
    then have "split_from sep acc ((c # cs) @ b) = split_from sep (acc @ [c]) (cs @ b)"
      by simp
    then show ?thesis
      using False "2.IH"(2) "2.prems" by simp
  qed
qed

lemma fieldSeparator_no_ws:
  "fieldSeparator \<noteq> []" "\<forall>c\<in>set fieldSeparator. \<not> isWhiteSpace c"
  "\<not> isWhiteSpace (hd fieldSeparator)"
  by (simp_all add: fieldSeparator_def js_def ch_def isWhiteSpace_def)

lemma split_ws:
  assumes "\<forall>c\<in>set a. isWhiteSpace c" and "\<forall>c\<in>set b. isWhiteSpace c"
  shows "map trim (split fieldSeparator (a @ y @ b)) = map trim (split fieldSeparator y)"
proof -
  let ?L = "split_from fieldSeparator [] y"
  let ?M = "(a @ hd ?L) # tl ?L"
  have L: "?L \<noteq> []" by (rule split_from_nonempty)
  have "split_from fieldSeparator [] (a @ (y @ b)) = split_from fieldSeparator ([] @ a) (y @ b)"
    using assms(1) fieldSeparator_no_ws(1,3) by (rule split_from_ws_prefix)
  also have "\<dots> = butlast (split_from fieldSeparator a y) @ [last (split_from fieldSeparator a y) @ b]"
    using split_from_ws_suffix [OF assms(2) fieldSeparator_no_ws(1,2)] by simp
  also have "split_from fieldSeparator a y = ?M"
    by (rule split_from_acc)
  finally have s: "split fieldSeparator (a @ y @ b) = butlast ?M @ [last ?M @ b]"
    by (simp add: split_def)
  have "map trim (butlast ?M @ [last ?M @ b]) = map trim (butlast ?M @ [last ?M])"
    using assms(2) by (simp add: trim_append_ws)
  also have "\<dots> = map trim ?M"
  proof -
    have "butlast ?M @ [last ?M] = ?M"
      by (rule append_butlast_last_id) simp
    then show ?thesis by (rule arg_cong)
  qed
  also have "\<dots> = trim (hd ?L) # map trim (tl ?L)"
    using assms(1) by (simp add: trim_prepend_ws)
  also have "\<dots> = map trim ?L"
    using L by (cases ?L) simp_all
  finally have c: "map trim (butlast ?M @ [last ?M @ b]) = map trim ?L" .
  show ?thesis
    unfolding s by (simp only: c split_def)
qed

lemma isNumber_element:
  assumes "map trim px = map trim py"
  shows "isNumber (element px i) = isNumber (element py i)"
proof -
  from assms have len: "length px = length py"
    by (rule map_eq_imp_length_eq)
  show ?thesis
  proof (cases "i < length px")
    case True
    then have "trim (px ! i) = trim (py ! i)"
      using assms len by (metis nth_map)
    then have "isNumber (Some (px ! i)) = isNumber (Some (py ! i))"
      by (metis isNumber_trim)
    with True len show ?thesis by (simp add: element_def)
  next
    case False
    with len show ?thesis by (simp add: element_def)
  qed
qed

lemma failsValidation_trim_cong:
  assumes "x \<noteq> []" and "y \<noteq> []"
    and "map trim (split fieldSeparator x) = map trim (split fieldSeparator y)"
  shows "failsValidation x = failsValidation y"
  using assms(1,2) isNumber_element [OF assms(3)] by (simp add: failsValidation_def)

lemma new_Critique_trim_cong:
  assumes "x \<noteq> []" and "y \<noteq> []"
    and "map trim (split fieldSeparator x) = map trim (split fieldSeparator y)"
    and "\<not> failsValidation y"
  shows "new_Critique x = new_Critique y"
proof -
  have fx: "\<not> failsValidation x"
    using failsValidation_trim_cong [OF assms(1,2,3)] assms(4) by simp
  show ?thesis
    using assms(3)
    unfolding new_Critique_valid [OF assms(1) fx] new_Critique_valid [OF assms(2,4)]
    by (auto split: list.splits)
qed

lemma introducer_not_ws: "oneOf introducer c \<Longrightarrow> \<not> isWhiteSpace c"
  by (auto simp: oneOf_Class introducer_def isWhiteSpace_def)

lemma final_not_ws: "oneOf final c \<Longrightarrow> \<not> isWhiteSpace c"
  by (auto simp: oneOf_Class final_def fromTo_def single_def ch_def isWhiteSpace_def
      word_le_nat_alt)

lemma escapeCode_ends:
  assumes "escapeCode e"
  shows "e \<noteq> [] \<and> \<not> isWhiteSpace (hd e) \<and> \<not> isWhiteSpace (last e)"
proof -
  from assms obtain c0 p g f where "e = c0 # p @ g @ [f]" "oneOf introducer c0" "oneOf final f"
    unfolding escapeCode_iff codeShape_def by blast
  then show ?thesis
    by (simp add: introducer_not_ws final_not_ws)
qed

lemma written_append: "written (ps @ qs) = written ps @ written qs"
  by (induction ps rule: written.induct) simp_all

lemma plain_append: "plain (ps @ qs) = plain ps @ plain qs"
  by (induction ps rule: plain.induct) simp_all

lemma trimStart_written:
  "list_all marked ps \<Longrightarrow>
   \<exists>a ps'. trimStart (written ps) = written ps' \<and> list_all marked ps' \<and>
           plain ps = a @ plain ps' \<and> (\<forall>c\<in>set a. isWhiteSpace c)"
proof (induction ps)
  case Nil
  have "trimStart (written []) = written []" "plain [] = [] @ plain []"
    by (simp_all add: trimStart_def)
  then show ?case by fastforce
next
  case (Cons x ps)
  show ?case
  proof (cases x)
    case (Plain c)
    show ?thesis
    proof (cases "isWhiteSpace c")
      case True
      from Cons obtain a ps' where i: "trimStart (written ps) = written ps'" "list_all marked ps'"
        "plain ps = a @ plain ps'" "\<forall>c\<in>set a. isWhiteSpace c"
        by auto
      have "trimStart (written (x # ps)) = written ps'"
        using True i(1) by (simp add: Plain trimStart_def)
      moreover have "plain (x # ps) = (c # a) @ plain ps'"
        using i(3) by (simp add: Plain)
      moreover have "\<forall>d\<in>set (c # a). isWhiteSpace d"
        using True i(4) by simp
      ultimately show ?thesis
        using i(2) by blast
    next
      case False
      then have "trimStart (written (x # ps)) = written (x # ps)"
        by (simp add: Plain trimStart_def)
      moreover have "plain (x # ps) = [] @ plain (x # ps)" by simp
      ultimately show ?thesis
        using Cons.prems by fastforce
    qed
  next
    case (Escape e)
    with Cons.prems have "e \<noteq> []" "\<not> isWhiteSpace (hd e)"
      using escapeCode_ends [of e] by simp_all
    then have "trimStart (written (x # ps)) = written (x # ps)"
      by (cases e) (simp_all add: Escape trimStart_def)
    moreover have "plain (x # ps) = [] @ plain (x # ps)" by simp
    ultimately show ?thesis
      using Cons.prems by fastforce
  qed
qed

lemma trimEnd_written:
  "list_all marked ps \<Longrightarrow>
   \<exists>b ps'. rev (trimStart (rev (written ps))) = written ps' \<and> list_all marked ps' \<and>
           plain ps = plain ps' @ b \<and> (\<forall>c\<in>set b. isWhiteSpace c)"
proof (induction ps rule: rev_induct)
  case Nil
  have "rev (trimStart (rev (written []))) = written []" "plain [] = plain [] @ []"
    by (simp_all add: trimStart_def)
  then show ?case by fastforce
next
  case (snoc x ps)
  then have m: "list_all marked ps" "marked x" by simp_all
  have same: ?case if "rev (trimStart (rev (written (ps @ [x])))) = written (ps @ [x])"
  proof -
    have "plain (ps @ [x]) = plain (ps @ [x]) @ []" by simp
    with that snoc.prems show ?thesis by fastforce
  qed
  show ?case
  proof (cases x)
    case (Plain c)
    show ?thesis
    proof (cases "isWhiteSpace c")
      case True
      from snoc.IH [OF m(1)] obtain b ps' where i:
        "rev (trimStart (rev (written ps))) = written ps'" "list_all marked ps'"
        "plain ps = plain ps' @ b" "\<forall>c\<in>set b. isWhiteSpace c"
        by auto
      have "rev (trimStart (rev (written (ps @ [x])))) = written ps'"
        using True i(1) by (simp add: Plain written_append trimStart_def)
      moreover have "plain (ps @ [x]) = plain ps' @ (b @ [c])"
        using i(3) by (simp add: Plain plain_append)
      moreover have "\<forall>d\<in>set (b @ [c]). isWhiteSpace d"
        using True i(4) by simp
      ultimately show ?thesis
        using i(2) by blast
    next
      case False
      then have "rev (trimStart (rev (written (ps @ [x])))) = written (ps @ [x])"
        by (simp add: Plain written_append trimStart_def)
      then show ?thesis by (rule same)
    qed
  next
    case (Escape e)
    with m(2) have e: "e \<noteq> []" "\<not> isWhiteSpace (last e)"
      using escapeCode_ends [of e] by simp_all
    then have "rev e \<noteq> []" "\<not> isWhiteSpace (hd (rev e))"
      by (simp_all add: hd_rev)
    then have "dropWhile isWhiteSpace (rev e @ z) = rev e @ z" for z
      by (cases "rev e") simp_all
    then have "rev (trimStart (rev (written (ps @ [x])))) = written (ps @ [x])"
      by (simp add: Escape written_append trimStart_def)
    then show ?thesis by (rule same)
  qed
qed

lemma cleaned_written:
  assumes "list_all marked ps"
  shows "\<exists>a b. plain ps = a @ cleaned (written ps) @ b \<and>
           (\<forall>c\<in>set a. isWhiteSpace c) \<and> (\<forall>c\<in>set b. isWhiteSpace c)"
proof -
  from trimStart_written [OF assms] obtain a p1 where
    p1: "trimStart (written ps) = written p1" "list_all marked p1" "plain ps = a @ plain p1"
    "\<forall>c\<in>set a. isWhiteSpace c"
    by blast
  from trimEnd_written [OF p1(2)] obtain b p2 where
    p2: "rev (trimStart (rev (written p1))) = written p2" "list_all marked p2"
    "plain p1 = plain p2 @ b" "\<forall>c\<in>set b. isWhiteSpace c"
    by blast
  have "trim (written ps) = written p2"
    by (simp add: trim_def p1(1) p2(1))
  then have "cleaned (written ps) = plain p2"
    using p2(2) by (simp add: cleaned_def replace_written)
  with p1(3,4) p2(3,4) show ?thesis
    by auto
qed

lemma replace_no_introducer:
  "\<forall>c\<in>set s. \<not> oneOf introducer c \<Longrightarrow> replace ansiEscapeCode s = s"
  by (induction s) (simp_all add: replace_plain del: replace.simps(2))

lemma plain_no_introducer: "list_all marked ps \<Longrightarrow> \<forall>c\<in>set (plain ps). \<not> oneOf introducer c"
  by (induction ps rule: plain.induct) simp_all

lemma cleaned_plain: "list_all marked ps \<Longrightarrow> cleaned (plain ps) = trim (plain ps)"
  unfolding cleaned_def
  by (intro replace_no_introducer) (auto dest: set_trim plain_no_introducer)

lemma contains_self: "contains t t"
  by (cases t) simp_all

lemma contains_append: "contains (a @ t) t"
  by (induction a) (simp_all add: contains_self)

lemma trim_surrounding:
  "\<exists>a b. s = a @ trim s @ b \<and> list_all isWhiteSpace a \<and> list_all isWhiteSpace b"
proof -
  obtain w where w: "trimStart s = trim s @ w" "\<forall>c\<in>set w. isWhiteSpace c"
    using trim_decompose [of s] by blast
  have "s = takeWhile isWhiteSpace s @ trimStart s"
    by (simp add: trimStart_def)
  with w(1) have "s = takeWhile isWhiteSpace s @ trim s @ w" by simp
  moreover have "list_all isWhiteSpace (takeWhile isWhiteSpace s)"
    by (auto simp: list_all_iff dest: set_takeWhileD)
  moreover have "list_all isWhiteSpace w"
    using w(2) by (simp add: list_all_iff)
  ultimately show ?thesis by blast
qed

lemma cleaned_no_introducer:
  assumes "list_all (\<lambda>c. \<not> oneOf introducer c) seg"
  shows "cleaned seg = trim seg"
  unfolding cleaned_def
  using assms by (intro replace_no_introducer) (auto simp: list_all_iff dest: set_trim)

lemma failsValidation_nonempty: "failsValidation text \<Longrightarrow> text \<noteq> []"
  by (simp add: failsValidation_def)

section \<open>C4: text on standard error takes precedence\<close>

text \<open>
  C4. Whenever \<open>stderrText\<close> is not empty, the result is the error state whose message
  is \<open>stderrText\<close> itself, with no critique, whatever \<open>stdoutText\<close> is: the output
  is not parsed.
\<close>

theorem stderr_takes_precedence:
  "stderrText \<noteq> [] \<Longrightarrow>
   new_Output stdoutText (Some stderrText) =
     Inr \<lparr>Output.error = Some stderrText, critiques = []\<rparr>"
  by (simp add: new_Output_def)

theorem stderr_takes_precedence_witness:
  "js ''Can not locate Perl/Critic.pm'' \<noteq> [] \<and>
   new_Output (js ''2[>]5[>]3[>]Bad thing. Explanation (Policy)[>]Policy::Name[[END]]'')
       (Some (js ''Can not locate Perl/Critic.pm'')) =
     Inr \<lparr>Output.error = Some (js ''Can not locate Perl/Critic.pm''), critiques = []\<rparr>"
  using stderr_takes_precedence
    [of "js ''Can not locate Perl/Critic.pm''"
        "js ''2[>]5[>]3[>]Bad thing. Explanation (Policy)[>]Policy::Name[[END]]''"]
  by (simp add: js_def)

section \<open>C7: blank records\<close>

text \<open>
  C7. With nothing on standard error, an output all of whose pieces between end-of-record
  marks trim to the empty string gives the success state: no critique and no error. The
  empty output and an output that is only the mark (so that the piece after the last mark
  is empty) are such outputs.
\<close>

theorem blank_records_give_success:
  assumes "errorStr = None \<or> errorStr = Some []"
    and "\<forall>seg\<in>set (split endOfRecord stdoutText). trim seg = []"
  shows "new_Output stdoutText errorStr = Inr \<lparr>Output.error = None, critiques = []\<rparr>"
proof -
  from assms(1) have "\<not> truthyString errorStr" by auto
  then show ?thesis
    using assms(2) by (simp add: new_Output_no_stderr forEach_callback_blank)
qed

theorem blank_records_give_success_witness:
  "split endOfRecord [] = [[]] \<and>
   new_Output [] None = Inr \<lparr>Output.error = None, critiques = []\<rparr> \<and>
   split endOfRecord ([0x20, 0xA] @ js ''[[END]]'' @ [0xA]) = [[0x20, 0xA], [0xA]] \<and>
   trim [0x20, 0xA] = [] \<and> trim [0xA] = [] \<and>
   new_Output ([0x20, 0xA] @ js ''[[END]]'' @ [0xA]) (Some []) =
     Inr \<lparr>Output.error = None, critiques = []\<rparr>"
proof -
  have a: "split endOfRecord [] = [[]]"
    by (simp add: str_eval endOfRecord_def)
  have b: "split endOfRecord ([0x20, 0xA] @ js ''[[END]]'' @ [0xA]) = [[0x20, 0xA], [0xA]]"
    by (simp add: str_eval endOfRecord_def)
  have c: "trim [0x20, 0xA] = []" "trim [0xA] = []" "trim [] = []"
    by (simp_all add: str_eval)
  show ?thesis
    using a b c blank_records_give_success [of None "[]"]
      blank_records_give_success [of "Some []" "[0x20, 0xA] @ js ''[[END]]'' @ [0xA]"]
    by simp
qed

section \<open>C2: a record of severity 1\<close>

text \<open>
  C2 says that a record whose three numbers parse gives a finding exactly when the
  severity read from the record is not zero, with rank \<open>severity - 1\<close>. The callback
  tests \<open>critique.severity\<close>, which by then holds the rank: a record of severity 1 has
  rank 0, which is falsy, and is dropped without error, like a record of severity 0.
\<close>

theorem severity_one_is_dropped:
  "new_Output (js ''1[>]1[>]1[>]x[>]y[[END]]'') None =
     Inr \<lparr>Output.error = None, critiques = []\<rparr>"
  by (simp add: str_eval num_eval re_eval out_eval cong: let_weak_cong)

section \<open>C3: a record with fewer than five fields\<close>

text \<open>
  C3 says that the parse returns for every input. A record whose first three fields are
  numbers and which has no fourth field makes \<open>summaryStr.trim()\<close> a call on
  \<open>undefined\<close>: the constructor throws a TypeError and returns no result.
\<close>

theorem short_record_throws:
  "new_Output (js ''1[>]2[>]3'') None = Inl TypeError"
  by (simp add: str_eval num_eval re_eval out_eval cong: let_weak_cong)

section \<open>C10: several malformed records\<close>

text \<open>
  C10. With nothing on standard error, when records of the output fail the validation of
  their numbers, the error message of the result is the one made from the last of them in
  the order of the output: the loop goes on after a malformed record, and each later one
  overwrites the message. Stated for any number of malformed records before the last one;
  \<open>bad\<close> is the last because no piece after it fails. The result is given whole, for an
  output none of whose records throws.
\<close>

theorem last_malformed_record_wins:
  assumes "\<not> truthyString errorStr"
    and "split endOfRecord stdoutText = pre @ bad # post"
    and "failsValidation (cleaned bad)"
    and "\<forall>seg\<in>set post. \<not> failsValidation (cleaned seg)"
    and "\<forall>seg\<in>set (pre @ bad # post). \<not> throws seg"
  shows "new_Output stdoutText errorStr =
     Inr \<lparr>Output.error = Some (invalidOutputFormat @ cleaned bad),
          critiques = concat (map pushes (pre @ bad # post))\<rparr>"
proof -
  have "lastError None (pre @ bad # post) = Some (invalidOutputFormat @ cleaned bad)"
    using assms(3,4) by (simp add: lastError_append lastError_Cons lastError_none)
  then show ?thesis
    using new_Output_result [of errorStr stdoutText] assms(1,2,5) by simp
qed

theorem last_malformed_record_wins_witness:
  "new_Output (js ''x[>]1[>]1[>]m[>]e[[END]]y[>]2[>]2[>]n[>]f[[END]]'') None =
     Inr \<lparr>Output.error = Some (invalidOutputFormat @ js ''y[>]2[>]2[>]n[>]f''),
          critiques = []\<rparr>"
proof -
  let ?x = "js ''x[>]1[>]1[>]m[>]e''" and ?y = "js ''y[>]2[>]2[>]n[>]f''"
  have s: "split endOfRecord (js ''x[>]1[>]1[>]m[>]e[[END]]y[>]2[>]2[>]n[>]f[[END]]'') =
      [?x] @ ?y # [[]]"
    by (simp add: str_eval endOfRecord_def)
  have c: "cleaned ?x = ?x" "cleaned ?y = ?y" "cleaned [] = []"
    by (simp_all add: str_eval re_eval cleaned_def)
  have f: "failsValidation ?x" "failsValidation ?y" "\<not> failsValidation []"
    by (simp_all add: str_eval num_eval fieldSeparator_def failsValidation_def cong: let_weak_cong)
  have t: "\<forall>seg\<in>set ([?x] @ ?y # [[]]). \<not> throws seg"
    using f by (simp add: throws_iff c)
  have p: "pushes ?x = []" "pushes ?y = []"
    using f by (simp_all add: pushes_fails c)
  have q: "pushes [] = []"
    by (simp add: pushes_def c new_Critique_empty unassigned_def)
  show ?thesis
    using last_malformed_record_wins [of None _ "[?x]" ?y "[[]]", OF _ s] f t
    by (simp add: c p q)
qed

section \<open>C9: one diagnostic per critique\<close>

text \<open>
  C9. The diagnostics are built from the critiques one for one, in order: as many
  diagnostics as critiques, the i-th built from the i-th critique, with the severity
  Warning, the range from (line, column) to (line, \<open>Number.MAX_VALUE\<close>), the summary as
  message, and the explanation as related information exactly when the client has
  declared the capability. It is a function of the critiques, the capability and the URI
  alone, and it is what \<open>validateTextDocument\<close> sends when there is no error.
\<close>

theorem diagnostics_one_per_finding:
  "length (diagnostics cap documentUri findings) = length findings \<and>
   (\<forall>i<length findings.
      diagnostics cap documentUri findings ! i =
        \<lparr>Diagnostic.severity = Warning,
         range = \<lparr>start = \<lparr>Position.line = Critique.line (findings ! i),
                            character = Critique.column (findings ! i)\<rparr>,
                  end = \<lparr>Position.line = Critique.line (findings ! i),
                          character = Some MAX_VALUE\<rparr>\<rparr>,
         message = Critique.summary (findings ! i),
         source = js ''perlcritic'',
         relatedInformation =
           (if cap
            then Some [\<lparr>location =
                          \<lparr>uri = documentUri,
                           range = \<lparr>start = \<lparr>Position.line = Critique.line (findings ! i),
                                              character = Critique.column (findings ! i)\<rparr>,
                                    end = \<lparr>Position.line = Critique.line (findings ! i),
                                            character = Some MAX_VALUE\<rparr>\<rparr>\<rparr>,
                        message = Critique.explanation (findings ! i)\<rparr>]
            else None)\<rparr>) \<and>
   validateTextDocument cap documentUri \<lparr>Output.error = None, critiques = findings\<rparr> =
     sendDiagnostics documentUri (diagnostics cap documentUri findings)"
  by (simp add: diagnostics_map diagnostic_def validateTextDocument_def Let_def)

theorem diagnostics_one_per_finding_witness:
  "length (diagnostics False (js ''file:///a.pl'')
      [\<lparr>Critique.line = Some (Finite 1), column = Some (Finite 4), severity = Some (Finite 2),
        summary = Some (js ''Bad thing''), explanation = Some (js ''Policy::Name''),
        error = None\<rparr>,
       \<lparr>Critique.line = Some (Finite 7), column = Some (Finite 0), severity = Some (Finite 4),
        summary = Some (js ''Worse''), explanation = Some (js ''Policy::Other''),
        error = None\<rparr>]) = 2 \<and>
   diagnostics False (js ''file:///a.pl'')
      [\<lparr>Critique.line = Some (Finite 1), column = Some (Finite 4), severity = Some (Finite 2),
        summary = Some (js ''Bad thing''), explanation = Some (js ''Policy::Name''),
        error = None\<rparr>,
       \<lparr>Critique.line = Some (Finite 7), column = Some (Finite 0), severity = Some (Finite 4),
        summary = Some (js ''Worse''), explanation = Some (js ''Policy::Other''),
        error = None\<rparr>] ! 1 =
     \<lparr>Diagnostic.severity = Warning,
      range = \<lparr>start = \<lparr>Position.line = Some (Finite 7), character = Some (Finite 0)\<rparr>,
               end = \<lparr>Position.line = Some (Finite 7), character = Some MAX_VALUE\<rparr>\<rparr>,
      message = Some (js ''Worse''),
      source = js ''perlcritic'',
      relatedInformation = None\<rparr>"
  using diagnostics_one_per_finding [of False "js ''file:///a.pl''"
      "[\<lparr>Critique.line = Some (Finite 1), column = Some (Finite 4), severity = Some (Finite 2),
        summary = Some (js ''Bad thing''), explanation = Some (js ''Policy::Name''),
        error = None\<rparr>,
       \<lparr>Critique.line = Some (Finite 7), column = Some (Finite 0), severity = Some (Finite 4),
        summary = Some (js ''Worse''), explanation = Some (js ''Policy::Other''),
        error = None\<rparr>]"]
  by simp

section \<open>C6: the message of a format error\<close>

text \<open>
  C6 says that the message of a format error contains the raw text of the offending
  record, the piece of the output between two end-of-record marks. The callback trims the
  piece and deletes the escape codes before \<open>Critique\<close> sees it, and the message is
  made from what \<open>Critique\<close> received. For the output below, whose record starts on a
  new line, the piece is the line feed followed by \<open>x[>]1[>]1[>]msg[>]exp\<close>; the message
  holds the record without the line feed, and the piece does not occur in it.
\<close>

theorem raw_record_not_in_message_counterexample:
  "split endOfRecord ([0xA] @ js ''x[>]1[>]1[>]msg[>]exp[[END]]'') =
     [[0xA] @ js ''x[>]1[>]1[>]msg[>]exp'', []] \<and>
   new_Output ([0xA] @ js ''x[>]1[>]1[>]msg[>]exp[[END]]'') None =
     Inr \<lparr>Output.error = Some (invalidOutputFormat @ js ''x[>]1[>]1[>]msg[>]exp''),
          critiques = []\<rparr> \<and>
   \<not> contains (invalidOutputFormat @ js ''x[>]1[>]1[>]msg[>]exp'')
        ([0xA] @ js ''x[>]1[>]1[>]msg[>]exp'')"
proof (intro conjI)
  show "split endOfRecord ([0xA] @ js ''x[>]1[>]1[>]msg[>]exp[[END]]'') =
     [[0xA] @ js ''x[>]1[>]1[>]msg[>]exp'', []]"
    by (simp add: str_eval endOfRecord_def)
  show "new_Output ([0xA] @ js ''x[>]1[>]1[>]msg[>]exp[[END]]'') None =
     Inr \<lparr>Output.error = Some (invalidOutputFormat @ js ''x[>]1[>]1[>]msg[>]exp''),
          critiques = []\<rparr>"
    by (simp add: str_eval num_eval re_eval out_eval cong: let_weak_cong)
  show "\<not> contains (invalidOutputFormat @ js ''x[>]1[>]1[>]msg[>]exp'')
        ([0xA] @ js ''x[>]1[>]1[>]msg[>]exp'')"
    by (simp add: invalidOutputFormat_def js_def ch_def)
qed

text \<open>
  C6, amended. When the line, column or severity field of a record that is not blank fails
  to parse as a number, the record puts the result into the error state, with a message
  made of the prefix \<open>Invalid output format (Please check your perltidy settings): \<close>
  and the record as trimmed and cleaned of escape codes. This holds for the \<open>Critique\<close>
  of the record and for the callback on it. With nothing on standard error (no text, or
  the empty text that the server passes), an output of that record alone, with or without
  its end-of-record mark, gives exactly this error and no finding; and whenever the
  constructor returns for an output that contains the record, the error is such a message
  for a failing record of the output. For a record without \<open>ESC\<close> or \<open>U+009B\<close>, the
  text in the message is the record without the white space at its two ends: the record
  is that text between two runs of white space, and the text neither starts nor ends with
  white space. If moreover the record neither starts nor ends with white space, the text
  in the message is the record itself, so the message contains the raw record. The output
  \<open>x[>]1[>]1[>]msg[>]exp[[END]]\<close>, with the empty text on standard error, and the same
  record between a space, a line feed and a tab are the witnesses.
\<close>

theorem format_error_message:
  assumes "failsValidation (cleaned seg)"
  shows "new_Critique (cleaned seg) =
           Inr \<lparr>Critique.line = None, column = None, severity = None, summary = None,
                explanation = None,
                error = Some (invalidOutputFormat @ cleaned seg)\<rparr> \<and>
         callback this seg =
           Inr (this\<lparr>Output.error := Some (invalidOutputFormat @ cleaned seg)\<rparr>) \<and>
         (\<not> truthyString errorStr \<and>
          (split endOfRecord stdoutText = [seg] \<or> split endOfRecord stdoutText = [seg, []]) \<longrightarrow>
            new_Output stdoutText errorStr =
              Inr \<lparr>Output.error = Some (invalidOutputFormat @ cleaned seg), critiques = []\<rparr>) \<and>
         (\<not> truthyString errorStr \<and> seg \<in> set (split endOfRecord stdoutText) \<and>
          new_Output stdoutText errorStr = Inr out \<longrightarrow>
            (\<exists>bad\<in>set (split endOfRecord stdoutText).
               failsValidation (cleaned bad) \<and>
               Output.error out = Some (invalidOutputFormat @ cleaned bad))) \<and>
         (list_all (\<lambda>c. \<not> oneOf introducer c) seg \<longrightarrow>
            (\<exists>a b. seg = a @ cleaned seg @ b \<and>
                   list_all isWhiteSpace a \<and> list_all isWhiteSpace b) \<and>
            \<not> isWhiteSpace (hd (cleaned seg)) \<and> \<not> isWhiteSpace (last (cleaned seg))) \<and>
         (list_all (\<lambda>c. \<not> oneOf introducer c) seg \<and>
          \<not> isWhiteSpace (hd seg) \<and> \<not> isWhiteSpace (last seg) \<longrightarrow>
            cleaned seg = seg \<and> contains (invalidOutputFormat @ cleaned seg) seg)"
proof (intro conjI impI)
  show "new_Critique (cleaned seg) =
           Inr \<lparr>Critique.line = None, column = None, severity = None, summary = None,
                explanation = None,
                error = Some (invalidOutputFormat @ cleaned seg)\<rparr>"
    using assms by (simp add: new_Critique_fails unassigned_def)
  show "callback this seg =
           Inr (this\<lparr>Output.error := Some (invalidOutputFormat @ cleaned seg)\<rparr>)"
    using assms by (rule callback_fails)
next
  assume one: "\<not> truthyString errorStr \<and>
    (split endOfRecord stdoutText = [seg] \<or> split endOfRecord stdoutText = [seg, []])"
  have e: "callback t [] = Inr t" for t
    by (rule callback_blank) (simp add: trim_def trimStart_def)
  from one show "new_Output stdoutText errorStr =
      Inr \<lparr>Output.error = Some (invalidOutputFormat @ cleaned seg), critiques = []\<rparr>"
    using assms by (auto simp: new_Output_no_stderr callback_fails e)
next
  assume a: "\<not> truthyString errorStr \<and> seg \<in> set (split endOfRecord stdoutText) \<and>
    new_Output stdoutText errorStr = Inr out"
  then have nt: "\<forall>s\<in>set (split endOfRecord stdoutText). \<not> throws s"
    using new_Output_returns [of errorStr stdoutText out] by simp
  then have "new_Output stdoutText errorStr =
     Inr \<lparr>Output.error = lastError None (split endOfRecord stdoutText),
          critiques = concat (map pushes (split endOfRecord stdoutText))\<rparr>"
    using a new_Output_result [of errorStr stdoutText] by simp
  with a have "Output.error out = lastError None (split endOfRecord stdoutText)"
    by auto
  moreover from a assms have "\<exists>s\<in>set (split endOfRecord stdoutText). failsValidation (cleaned s)"
    by auto
  ultimately show "\<exists>bad\<in>set (split endOfRecord stdoutText).
       failsValidation (cleaned bad) \<and> Output.error out = Some (invalidOutputFormat @ cleaned bad)"
    using lastError_some [of "split endOfRecord stdoutText" None] by simp
next
  assume n: "list_all (\<lambda>c. \<not> oneOf introducer c) seg"
  then have c: "cleaned seg = trim seg"
    by (rule cleaned_no_introducer)
  show "\<exists>a b. seg = a @ cleaned seg @ b \<and> list_all isWhiteSpace a \<and> list_all isWhiteSpace b"
    unfolding c by (rule trim_surrounding)
  have "trim seg \<noteq> []"
    using assms failsValidation_nonempty [of "cleaned seg"] by (simp add: c)
  then show "\<not> isWhiteSpace (hd (cleaned seg))" "\<not> isWhiteSpace (last (cleaned seg))"
    unfolding c using trim_ends [of seg] by simp_all
next
  assume n: "list_all (\<lambda>c. \<not> oneOf introducer c) seg \<and>
    \<not> isWhiteSpace (hd seg) \<and> \<not> isWhiteSpace (last seg)"
  then have "trim seg = seg"
    by (intro trim_fixed) simp
  with n show c: "cleaned seg = seg"
    by (simp add: cleaned_no_introducer)
  show "contains (invalidOutputFormat @ cleaned seg) seg"
    unfolding c by (rule contains_append)
qed

theorem format_error_message_witness:
  "failsValidation (cleaned (js ''x[>]1[>]1[>]msg[>]exp'')) \<and>
   split endOfRecord (js ''x[>]1[>]1[>]msg[>]exp[[END]]'') = [js ''x[>]1[>]1[>]msg[>]exp'', []] \<and>
   new_Output (js ''x[>]1[>]1[>]msg[>]exp[[END]]'') (Some []) =
     Inr \<lparr>Output.error =
            Some (js ''Invalid output format (Please check your perltidy settings): '' @
                  js ''x[>]1[>]1[>]msg[>]exp''),
          critiques = []\<rparr> \<and>
   contains (js ''Invalid output format (Please check your perltidy settings): '' @
             js ''x[>]1[>]1[>]msg[>]exp'') (js ''x[>]1[>]1[>]msg[>]exp'') \<and>
   failsValidation (cleaned ([0x20, 0xA] @ js ''x[>]1[>]1[>]msg[>]exp'' @ [0x9])) \<and>
   split endOfRecord ([0x20, 0xA] @ js ''x[>]1[>]1[>]msg[>]exp'' @ [0x9] @ js ''[[END]]'') =
     [[0x20, 0xA] @ js ''x[>]1[>]1[>]msg[>]exp'' @ [0x9], []] \<and>
   cleaned ([0x20, 0xA] @ js ''x[>]1[>]1[>]msg[>]exp'' @ [0x9]) = js ''x[>]1[>]1[>]msg[>]exp'' \<and>
   new_Output ([0x20, 0xA] @ js ''x[>]1[>]1[>]msg[>]exp'' @ [0x9] @ js ''[[END]]'') None =
     Inr \<lparr>Output.error =
            Some (js ''Invalid output format (Please check your perltidy settings): '' @
                  js ''x[>]1[>]1[>]msg[>]exp''),
          critiques = []\<rparr>"
proof -
  let ?x = "js ''x[>]1[>]1[>]msg[>]exp''"
  let ?y = "[0x20, 0xA] @ js ''x[>]1[>]1[>]msg[>]exp'' @ [0x9]"
  have s: "split endOfRecord (js ''x[>]1[>]1[>]msg[>]exp[[END]]'') = [?x, []]"
    "split endOfRecord (?y @ js ''[[END]]'') = [?y, []]"
    by (simp_all add: str_eval endOfRecord_def)
  have c: "cleaned ?x = ?x" "cleaned ?y = ?x"
    by (simp_all add: str_eval re_eval cleaned_def)
  have f: "failsValidation ?x"
    by (simp add: str_eval num_eval fieldSeparator_def failsValidation_def cong: let_weak_cong)
  have fx: "failsValidation (cleaned ?x)" and fy: "failsValidation (cleaned ?y)"
    unfolding c by (rule f)+
  have n: "list_all (\<lambda>c. \<not> oneOf introducer c) ?x"
    by (simp add: oneOf_Class introducer_def js_def ch_def)
  have h: "\<not> isWhiteSpace (hd ?x)" "\<not> isWhiteSpace (last ?x)"
    by (simp_all add: str_eval)
  have t: "\<not> truthyString (Some [])" "\<not> truthyString None"
    by simp_all
  note a = format_error_message [OF fx, of _ "Some []" "js ''x[>]1[>]1[>]msg[>]exp[[END]]''",
      unfolded c]
  note b = format_error_message [OF fy, of _ None "?y @ js ''[[END]]''", unfolded c]
  from a t(1) s(1) have 1: "new_Output (js ''x[>]1[>]1[>]msg[>]exp[[END]]'') (Some []) =
      Inr \<lparr>Output.error = Some (invalidOutputFormat @ ?x), critiques = []\<rparr>"
    by blast
  from a n h have 2: "contains (invalidOutputFormat @ ?x) ?x"
    by blast
  from b t(2) s(2) have 3: "new_Output (?y @ js ''[[END]]'') None =
      Inr \<lparr>Output.error = Some (invalidOutputFormat @ ?x), critiques = []\<rparr>"
    by blast
  have i: "invalidOutputFormat =
      js ''Invalid output format (Please check your perltidy settings): ''"
    by (simp add: invalidOutputFormat_def)
  from fx s(1) 1 2 fy s(2) c(2) 3 show ?thesis
    unfolding i by simp
qed

section \<open>C5: the fields of a finding\<close>

text \<open>
  C5. For a record with at least five fields whose first three are numbers, with values
  \<open>Lp\<close>, \<open>Cp\<close>, \<open>Sp\<close> (what \<open>parseInt\<close> reads in each field), the \<open>Critique\<close>
  built has line \<open>max(Lp - 1, 0)\<close>, column \<open>max(Cp - 1, 0)\<close>, severity
  \<open>max(Sp - 1, 0)\<close>, and as summary and explanation the fourth and fifth fields
  trimmed; this is the object the callback pushes, when it pushes one. The subtraction is
  the one of doubles; up to \<open>2^53\<close> it is the subtraction of integers. Trimmed means
  that the field is the summary (the explanation) between two runs of white space, and
  that the summary (the explanation) is empty or neither starts nor ends with white
  space. The witnesses are a record whose column, summary and explanation fields have
  spaces and a tab around them, and the record of scenario A.
\<close>

theorem finding_fields:
  assumes "split fieldSeparator (cleaned seg) = l # c # v # sm # ex # rest"
    and "isNumber (Some l)" and "isNumber (Some c)" and "isNumber (Some v)"
  shows "(let finding =
            \<lparr>Critique.line = Some (Math_max (minus1 (parseInt l)) (Finite 0)),
             column = Some (Math_max (minus1 (parseInt c)) (Finite 0)),
             severity = Some (Math_max (minus1 (parseInt v)) (Finite 0)),
             summary = Some (trim sm),
             explanation = Some (trim ex),
             error = None\<rparr>
          in new_Critique (cleaned seg) = Inr finding \<and>
             callback this seg =
               Inr (this\<lparr>critiques := critiques this @
                      (if truthyNumber (Critique.severity finding) then [finding] else [])\<rparr>)) \<and>
         (\<forall>x n. x \<in> {parseInt l, parseInt c, parseInt v} \<and> x = Finite n \<and> n \<le> 2 ^ 53 \<longrightarrow>
            Math_max (minus1 x) (Finite 0) = Finite (max (n - 1) 0)) \<and>
         (\<exists>a b. sm = a @ trim sm @ b \<and> list_all isWhiteSpace a \<and> list_all isWhiteSpace b) \<and>
         (trim sm = [] \<or> (\<not> isWhiteSpace (hd (trim sm)) \<and> \<not> isWhiteSpace (last (trim sm)))) \<and>
         (\<exists>a b. ex = a @ trim ex @ b \<and> list_all isWhiteSpace a \<and> list_all isWhiteSpace b) \<and>
         (trim ex = [] \<or> (\<not> isWhiteSpace (hd (trim ex)) \<and> \<not> isWhiteSpace (last (trim ex))))"
proof -
  have ne: "cleaned seg \<noteq> []"
    using assms(1) by (auto simp: split_Nil)
  have nf: "\<not> failsValidation (cleaned seg)"
    using assms by (simp add: failsValidation_def element_def)
  have z: "zeroBased (parseInt (trim s)) = Math_max (minus1 (parseInt s)) (Finite 0)"
    if "isNumber (Some s)" for s
    using that isNumber_parseInt [of s] by (simp add: zeroBased_max parseInt_trim)
  have nc: "new_Critique (cleaned seg) =
      Inr \<lparr>Critique.line = Some (Math_max (minus1 (parseInt l)) (Finite 0)),
           column = Some (Math_max (minus1 (parseInt c)) (Finite 0)),
           severity = Some (Math_max (minus1 (parseInt v)) (Finite 0)),
           summary = Some (trim sm),
           explanation = Some (trim ex),
           error = None\<rparr>"
    using new_Critique_valid [OF ne nf] assms by (simp add: z)
  then have nt: "\<not> throws seg"
    by (simp add: throws_def)
  have cb: "callback this seg = Inr (this\<lparr>critiques := critiques this @ pushes seg\<rparr>)"
    using nt nf by (rule callback_valid)
  have ex: "Math_max (minus1 (Finite n)) (Finite 0) = Finite (max (n - 1) 0)" if "n \<le> 2 ^ 53" for n
    using zeroBased_exact [OF that] zeroBased_max [of "Finite n"] by simp
  have numbers: "(let finding =
            \<lparr>Critique.line = Some (Math_max (minus1 (parseInt l)) (Finite 0)),
             column = Some (Math_max (minus1 (parseInt c)) (Finite 0)),
             severity = Some (Math_max (minus1 (parseInt v)) (Finite 0)),
             summary = Some (trim sm),
             explanation = Some (trim ex),
             error = None\<rparr>
          in new_Critique (cleaned seg) = Inr finding \<and>
             callback this seg =
               Inr (this\<lparr>critiques := critiques this @
                      (if truthyNumber (Critique.severity finding) then [finding] else [])\<rparr>)) \<and>
         (\<forall>x n. x \<in> {parseInt l, parseInt c, parseInt v} \<and> x = Finite n \<and> n \<le> 2 ^ 53 \<longrightarrow>
            Math_max (minus1 x) (Finite 0) = Finite (max (n - 1) 0))"
    using nc cb ex by (auto simp: Let_def pushes_def)
  have ends: "trim s = [] \<or> (\<not> isWhiteSpace (hd (trim s)) \<and> \<not> isWhiteSpace (last (trim s)))"
    for s
    using trim_ends [of s] by blast
  from numbers trim_surrounding [of sm] ends [of sm] trim_surrounding [of ex] ends [of ex]
  show ?thesis by blast
qed

theorem finding_fields_witness:
  "split fieldSeparator
     (cleaned (js ''2[>] 5[>]3[>]  Bad thing. '' @ [0x9] @ js ''[>] Policy::Name [>]x'')) =
     [js ''2'', js '' 5'', js ''3'', js ''  Bad thing. '' @ [0x9], js '' Policy::Name '',
      js ''x''] \<and>
   isNumber (Some (js ''2'')) \<and> isNumber (Some (js '' 5'')) \<and> isNumber (Some (js ''3'')) \<and>
   parseInt (js ''2'') = Finite 2 \<and> parseInt (js '' 5'') = Finite 5 \<and>
   parseInt (js ''3'') = Finite 3 \<and>
   new_Critique
     (cleaned (js ''2[>] 5[>]3[>]  Bad thing. '' @ [0x9] @ js ''[>] Policy::Name [>]x'')) =
     Inr \<lparr>Critique.line = Some (Finite 1), column = Some (Finite 4),
          severity = Some (Finite 2),
          summary = Some (js ''Bad thing.''),
          explanation = Some (js ''Policy::Name''), error = None\<rparr> \<and>
   callback \<lparr>Output.error = None, critiques = []\<rparr>
     (js ''2[>] 5[>]3[>]  Bad thing. '' @ [0x9] @ js ''[>] Policy::Name [>]x'') =
     Inr \<lparr>Output.error = None,
          critiques =
            [\<lparr>Critique.line = Some (Finite 1), column = Some (Finite 4),
              severity = Some (Finite 2),
              summary = Some (js ''Bad thing.''),
              explanation = Some (js ''Policy::Name''), error = None\<rparr>]\<rparr> \<and>
   new_Output (js ''2[>]5[>]3[>]Bad thing. Explanation (Policy)[>]Policy::Name[[END]]'') None =
     Inr \<lparr>Output.error = None,
          critiques =
            [\<lparr>Critique.line = Some (Finite 1), column = Some (Finite 4),
              severity = Some (Finite 2),
              summary = Some (js ''Bad thing. Explanation (Policy)''),
              explanation = Some (js ''Policy::Name''), error = None\<rparr>]\<rparr>"
proof -
  let ?r = "js ''2[>] 5[>]3[>]  Bad thing. '' @ [0x9] @ js ''[>] Policy::Name [>]x''"
  let ?a = "js ''2[>]5[>]3[>]Bad thing. Explanation (Policy)[>]Policy::Name''"
  have c: "cleaned ?r = ?r" "cleaned ?a = ?a"
    by (simp_all add: str_eval re_eval cleaned_def)
  have s: "split fieldSeparator (cleaned ?r) =
     js ''2'' # js '' 5'' # js ''3'' # (js ''  Bad thing. '' @ [0x9]) # js '' Policy::Name '' #
     [js ''x'']"
    unfolding c by (simp add: str_eval fieldSeparator_def)
  have sa: "split fieldSeparator (cleaned ?a) =
     js ''2'' # js ''5'' # js ''3'' # js ''Bad thing. Explanation (Policy)'' # js ''Policy::Name'' # []"
    unfolding c by (simp add: str_eval fieldSeparator_def)
  have n: "isNumber (Some (js ''2''))" "isNumber (Some (js '' 5''))" "isNumber (Some (js ''3''))"
    by (simp_all add: str_eval num_eval cong: let_weak_cong)
  have na: "isNumber (Some (js ''2''))" "isNumber (Some (js ''5''))" "isNumber (Some (js ''3''))"
    by (simp_all add: str_eval num_eval cong: let_weak_cong)
  have p: "parseInt (js ''2'') = Finite 2" "parseInt (js '' 5'') = Finite 5"
    "parseInt (js ''5'') = Finite 5" "parseInt (js ''3'') = Finite 3"
    by (simp_all add: str_eval num_eval cong: let_weak_cong)
  have t: "trim (js ''  Bad thing. '' @ [0x9]) = js ''Bad thing.''"
    "trim (js '' Policy::Name '') = js ''Policy::Name''"
    "trim (js ''Bad thing. Explanation (Policy)'') = js ''Bad thing. Explanation (Policy)''"
    "trim (js ''Policy::Name'') = js ''Policy::Name''"
    by (simp_all add: str_eval)
  have m: "minus1 (Finite 2) = Finite 1" "minus1 (Finite 5) = Finite 4" "minus1 (Finite 3) = Finite 2"
    by (simp_all add: toDouble_small)
  have e: "split endOfRecord
      (js ''2[>]5[>]3[>]Bad thing. Explanation (Policy)[>]Policy::Name[[END]]'') = [?a, []]"
    by (simp add: str_eval endOfRecord_def)
  have b: "callback t [] = Inr t" for t
    by (rule callback_blank) (simp add: trim_def trimStart_def)
  note f = finding_fields [OF s n, of "\<lparr>Output.error = None, critiques = []\<rparr>",
      unfolded Let_def p m t, simplified]
  note g = finding_fields [OF sa na, unfolded Let_def p m t, simplified]
  from f have 1: "new_Critique (cleaned ?r) =
     Inr \<lparr>Critique.line = Some (Finite 1), column = Some (Finite 4),
          severity = Some (Finite 2),
          summary = Some (js ''Bad thing.''),
          explanation = Some (js ''Policy::Name''), error = None\<rparr>"
    by simp
  from f have 2: "callback \<lparr>Output.error = None, critiques = []\<rparr> ?r =
     Inr \<lparr>Output.error = None,
          critiques =
            [\<lparr>Critique.line = Some (Finite 1), column = Some (Finite 4),
              severity = Some (Finite 2),
              summary = Some (js ''Bad thing.''),
              explanation = Some (js ''Policy::Name''), error = None\<rparr>]\<rparr>"
    by simp
  have 3: "new_Output (js ''2[>]5[>]3[>]Bad thing. Explanation (Policy)[>]Policy::Name[[END]]'') None =
     Inr \<lparr>Output.error = None,
          critiques =
            [\<lparr>Critique.line = Some (Finite 1), column = Some (Finite 4),
              severity = Some (Finite 2),
              summary = Some (js ''Bad thing. Explanation (Policy)''),
              explanation = Some (js ''Policy::Name''), error = None\<rparr>]\<rparr>"
    using g by (simp add: new_Output_no_stderr e b)
  from s n p(1,2,4) 1 2 3 show ?thesis
    by simp
qed

section \<open>C1: an error together with findings\<close>

text \<open>
  C1 says that once a record fails the validation the result is the error state alone:
  the findings of earlier records are discarded, and no result carries both an error and
  findings. \<open>Output\<close> never empties \<open>critiques\<close>: for the output below, whose second
  record is malformed, the result carries the error and the finding of the first record.
\<close>

theorem error_with_findings_counterexample:
  "new_Output (js ''2[>]5[>]3[>]a[>]b[[END]]x[>]1[>]1[>]m[>]e[[END]]'') None =
     Inr \<lparr>Output.error = Some (invalidOutputFormat @ js ''x[>]1[>]1[>]m[>]e''),
          critiques =
            [\<lparr>Critique.line = Some (Finite 1), column = Some (Finite 4),
              severity = Some (Finite 2), summary = Some (js ''a''),
              explanation = Some (js ''b''), error = None\<rparr>]\<rparr>"
  by (simp add: str_eval num_eval re_eval out_eval cong: let_weak_cong)

text \<open>
  C1, amended. When a record fails the validation and the constructor returns, the error
  of the result is set to a non-empty message, and the findings of the records before the
  first failing one are kept: what the loop yields on those records alone is the start of
  \<open>critiques\<close>. The error excludes the findings only in the caller:
  \<open>validateTextDocument\<close> shows the message and sends no diagnostics.
\<close>

theorem error_keeps_earlier_findings:
  assumes "\<not> truthyString errorStr"
    and "split endOfRecord stdoutText = pre @ bad # post"
    and "\<forall>seg\<in>set pre. \<not> failsValidation (cleaned seg)"
    and "failsValidation (cleaned bad)"
    and "new_Output stdoutText errorStr = Inr out"
  shows "\<exists>m kept.
           Output.error out = Some m \<and> m \<noteq> [] \<and>
           forEach callback pre \<lparr>Output.error = None, critiques = []\<rparr> =
             Inr \<lparr>Output.error = None, critiques = kept\<rparr> \<and>
           take (length kept) (critiques out) = kept \<and>
           validateTextDocument cap documentUri out = showErrorMessage m"
proof -
  let ?segs = "split endOfRecord stdoutText"
  have nt: "\<forall>seg\<in>set ?segs. \<not> throws seg"
    using assms(1,5) by (rule new_Output_returns)
  then have "new_Output stdoutText errorStr =
      Inr \<lparr>Output.error = lastError None ?segs, critiques = concat (map pushes ?segs)\<rparr>"
    using assms(1) by (simp add: new_Output_result)
  with assms(5) have out: "out = \<lparr>Output.error = lastError None ?segs,
      critiques = concat (map pushes ?segs)\<rparr>"
    by simp
  have "\<exists>seg\<in>set ?segs. failsValidation (cleaned seg)"
    using assms(2,4) by simp
  then obtain b where b: "lastError None ?segs = Some (invalidOutputFormat @ cleaned b)"
    using lastError_some [of ?segs None] by blast
  have pre: "forEach callback pre \<lparr>Output.error = None, critiques = []\<rparr> =
      Inr \<lparr>Output.error = None, critiques = concat (map pushes pre)\<rparr>"
    using nt assms(2,3) by (simp add: forEach_callback lastError_none)
  have tk: "take (length (concat (map pushes pre))) (critiques out) = concat (map pushes pre)"
    by (simp add: out assms(2))
  have v: "validateTextDocument cap documentUri out =
      showErrorMessage (invalidOutputFormat @ cleaned b)"
    by (simp add: validateTextDocument_def out b)
  show ?thesis
    using b pre tk v by (intro exI [of _ "invalidOutputFormat @ cleaned b"]
        exI [of _ "concat (map pushes pre)"]) (simp add: out)
qed

theorem error_keeps_earlier_findings_witness:
  "\<exists>m kept.
     Output.error \<lparr>Output.error = Some (invalidOutputFormat @ js ''x[>]1[>]1[>]m[>]e''),
          critiques =
            [\<lparr>Critique.line = Some (Finite 1), column = Some (Finite 4),
              severity = Some (Finite 2), summary = Some (js ''a''),
              explanation = Some (js ''b''), error = None\<rparr>]\<rparr> = Some m \<and> m \<noteq> [] \<and>
     forEach callback [js ''2[>]5[>]3[>]a[>]b''] \<lparr>Output.error = None, critiques = []\<rparr> =
       Inr \<lparr>Output.error = None, critiques = kept\<rparr> \<and>
     take (length kept)
       (critiques \<lparr>Output.error = Some (invalidOutputFormat @ js ''x[>]1[>]1[>]m[>]e''),
          critiques =
            [\<lparr>Critique.line = Some (Finite 1), column = Some (Finite 4),
              severity = Some (Finite 2), summary = Some (js ''a''),
              explanation = Some (js ''b''), error = None\<rparr>]\<rparr>) = kept \<and>
     validateTextDocument True (js ''file:///a.pl'')
       \<lparr>Output.error = Some (invalidOutputFormat @ js ''x[>]1[>]1[>]m[>]e''),
          critiques =
            [\<lparr>Critique.line = Some (Finite 1), column = Some (Finite 4),
              severity = Some (Finite 2), summary = Some (js ''a''),
              explanation = Some (js ''b''), error = None\<rparr>]\<rparr> = showErrorMessage m"
proof -
  let ?a = "js ''2[>]5[>]3[>]a[>]b''" and ?x = "js ''x[>]1[>]1[>]m[>]e''"
  let ?in = "js ''2[>]5[>]3[>]a[>]b[[END]]x[>]1[>]1[>]m[>]e[[END]]''"
  have s: "split endOfRecord ?in = [?a] @ ?x # [[]]"
    by (simp add: str_eval endOfRecord_def)
  have c: "cleaned ?a = ?a" "cleaned ?x = ?x"
    by (simp_all add: str_eval re_eval cleaned_def)
  have f: "\<not> failsValidation (cleaned ?a)" "failsValidation (cleaned ?x)"
    unfolding c
    by (simp_all add: str_eval num_eval fieldSeparator_def failsValidation_def cong: let_weak_cong)
  have r: "new_Output ?in None =
     Inr \<lparr>Output.error = Some (invalidOutputFormat @ js ''x[>]1[>]1[>]m[>]e''),
          critiques =
            [\<lparr>Critique.line = Some (Finite 1), column = Some (Finite 4),
              severity = Some (Finite 2), summary = Some (js ''a''),
              explanation = Some (js ''b''), error = None\<rparr>]\<rparr>"
    by (simp add: str_eval num_eval re_eval out_eval cong: let_weak_cong)
  show ?thesis
    using error_keeps_earlier_findings [of None ?in "[?a]" ?x "[[]]" _ True "js ''file:///a.pl''",
        OF _ s _ f(2) r] f(1)
    by simp
qed

section \<open>C8: escape codes inserted into a record\<close>

text \<open>
  C8 says that escape codes inserted into a well-formed record are deleted before the
  record is split into fields, so that the record parses as it does without them. From an
  introducer on, the pattern of \<open>Output.ts\<close> deletes the first text it can match, which
  need not be the inserted code. \<open>ESC 7\<close> is matched whole by the pattern, but in front of
  the record \<open>2[>]5[>]3[>]a[>]b\<close> the match takes \<open>7\<close> as a parameter and the first
  digit of the line number as the final code unit. In \<open>ESC [ 1 P\<close> the final \<open>P\<close> is not
  among the finals of the pattern: the match ends at \<open>1\<close> and \<open>P\<close> stays. In both cases
  the record, which alone gives a finding, gives a format error.
\<close>

theorem escape_code_residue_counterexample:
  "new_Output (js ''2[>]5[>]3[>]a[>]b'') None =
     Inr \<lparr>Output.error = None,
          critiques =
            [\<lparr>Critique.line = Some (Finite 1), column = Some (Finite 4),
              severity = Some (Finite 2), summary = Some (js ''a''),
              explanation = Some (js ''b''), error = None\<rparr>]\<rparr> \<and>
   length ([0x1b] @ js ''7'') \<in> set (ends ansiEscapeCode ([0x1b] @ js ''7'')) \<and>
   new_Output ([0x1b] @ js ''72[>]5[>]3[>]a[>]b'') None =
     Inr \<lparr>Output.error = Some (invalidOutputFormat @ js ''[>]5[>]3[>]a[>]b''),
          critiques = []\<rparr> \<and>
   new_Output ([0x1b] @ js ''[1P2[>]5[>]3[>]a[>]b'') None =
     Inr \<lparr>Output.error = Some (invalidOutputFormat @ js ''P2[>]5[>]3[>]a[>]b''),
          critiques = []\<rparr>"
proof (intro conjI)
  show "new_Output (js ''2[>]5[>]3[>]a[>]b'') None =
     Inr \<lparr>Output.error = None,
          critiques =
            [\<lparr>Critique.line = Some (Finite 1), column = Some (Finite 4),
              severity = Some (Finite 2), summary = Some (js ''a''),
              explanation = Some (js ''b''), error = None\<rparr>]\<rparr>"
    by (simp add: str_eval num_eval re_eval out_eval cong: let_weak_cong)
  show "length ([0x1b] @ js ''7'') \<in> set (ends ansiEscapeCode ([0x1b] @ js ''7''))"
    by (simp add: str_eval re_eval)
  show "new_Output ([0x1b] @ js ''72[>]5[>]3[>]a[>]b'') None =
     Inr \<lparr>Output.error = Some (invalidOutputFormat @ js ''[>]5[>]3[>]a[>]b''),
          critiques = []\<rparr>"
    by (simp add: str_eval num_eval re_eval out_eval cong: let_weak_cong)
  show "new_Output ([0x1b] @ js ''[1P2[>]5[>]3[>]a[>]b'') None =
     Inr \<lparr>Output.error = Some (invalidOutputFormat @ js ''P2[>]5[>]3[>]a[>]b''),
          critiques = []\<rparr>"
    by (simp add: str_eval num_eval re_eval out_eval cong: let_weak_cong)
qed

text \<open>
  C8, amended. An escape code is a text that the pattern matches whole and whose last code
  unit is not a digit; any number of them are inserted, anywhere, into a record that has
  no introducer (\<open>ESC\<close> or \<open>U+009B\<close>) of its own. Then the replacement deletes the
  inserted codes and nothing else. When the record has no white space at its ends, the
  text handed to \<open>Critique\<close> is the record. When the record is well formed (not blank,
  its first three fields numbers), the text with the codes passes the validation too, its
  fields are those of the record up to white space at their ends (a code at an end of the
  text shields the white space next to it from \<open>trim\<close>), and the \<open>Critique\<close> built
  and the result of the callback are those of the record without the codes.
\<close>

theorem escape_codes_are_stripped:
  assumes "list_all marked ps"
  shows "replace ansiEscapeCode (written ps) = plain ps \<and>
         (trim (plain ps) = plain ps \<longrightarrow> cleaned (written ps) = plain ps) \<and>
         (cleaned (plain ps) \<noteq> [] \<and> \<not> failsValidation (cleaned (plain ps)) \<longrightarrow>
            \<not> failsValidation (cleaned (written ps)) \<and>
            map trim (split fieldSeparator (cleaned (written ps))) =
              map trim (split fieldSeparator (cleaned (plain ps))) \<and>
            new_Critique (cleaned (written ps)) = new_Critique (cleaned (plain ps)) \<and>
            callback this (written ps) = callback this (plain ps))"
proof -
  from cleaned_written [OF assms] obtain a b where
    ab: "plain ps = a @ cleaned (written ps) @ b" "\<forall>c\<in>set a. isWhiteSpace c"
    "\<forall>c\<in>set b. isWhiteSpace c"
    by blast
  have tr: "trim (plain ps) = trim (cleaned (written ps))"
    using ab by (metis trim_append_ws trim_prepend_ws)
  let ?x = "cleaned (written ps)" and ?y = "cleaned (plain ps)"
  have one: "replace ansiEscapeCode (written ps) = plain ps"
    using assms by (rule replace_written)
  have two: "?x = plain ps" if t: "trim (plain ps) = plain ps"
  proof -
    have "length (plain ps) = length (trim ?x)"
      using t tr by simp
    also have "\<dots> \<le> length ?x"
      by (rule length_trim)
    finally have "a = []" "b = []"
      using ab(1) by (simp_all add: arg_cong [OF ab(1), of length])
    with ab(1) show ?thesis by simp
  qed
  have three: "\<not> failsValidation ?x \<and>
      map trim (split fieldSeparator ?x) = map trim (split fieldSeparator ?y) \<and>
      new_Critique ?x = new_Critique ?y \<and>
      callback this (written ps) = callback this (plain ps)"
    if w: "?y \<noteq> [] \<and> \<not> failsValidation ?y"
  proof -
    have y: "?y = trim ?x"
      using assms tr by (simp add: cleaned_plain)
    with w have x: "?x \<noteq> []"
      by (auto simp: trim_def trimStart_def)
    have fields: "map trim (split fieldSeparator ?x) = map trim (split fieldSeparator ?y)"
    proof -
      obtain w0 where w0: "trimStart ?x = trim ?x @ w0" "\<forall>c\<in>set w0. isWhiteSpace c"
        using trim_decompose [of ?x] by blast
      have "?x = takeWhile isWhiteSpace ?x @ trimStart ?x"
        by (simp add: trimStart_def)
      with w0(1) y have "?x = takeWhile isWhiteSpace ?x @ ?y @ w0" by simp
      moreover have "\<forall>c\<in>set (takeWhile isWhiteSpace ?x). isWhiteSpace c"
        by (auto dest: set_takeWhileD)
      ultimately show ?thesis
        using split_ws [of "takeWhile isWhiteSpace ?x" w0 ?y] w0(2) by simp
    qed
    have fv: "\<not> failsValidation ?x"
      using failsValidation_trim_cong [OF x _ fields] w by simp
    have nc: "new_Critique ?x = new_Critique ?y"
      using x fields w by (intro new_Critique_trim_cong) simp_all
    have cb: "callback this (written ps) = callback this (plain ps)"
      unfolding callback_def Let_def nc ..
    from fv fields nc cb show ?thesis by (intro conjI)
  qed
  from one two three show ?thesis by blast
qed

theorem escape_codes_are_stripped_witness:
  "list_all marked
     ([Escape ([0x1b] @ js ''[1;31m'')] @ map Plain (js ''2[>]5[>]3[>]a[>]b'') @
      [Escape ([0x1b] @ js ''[0m'')]) \<and>
   written
     ([Escape ([0x1b] @ js ''[1;31m'')] @ map Plain (js ''2[>]5[>]3[>]a[>]b'') @
      [Escape ([0x1b] @ js ''[0m'')]) =
     [0x1b] @ js ''[1;31m2[>]5[>]3[>]a[>]b'' @ [0x1b] @ js ''[0m'' \<and>
   plain
     ([Escape ([0x1b] @ js ''[1;31m'')] @ map Plain (js ''2[>]5[>]3[>]a[>]b'') @
      [Escape ([0x1b] @ js ''[0m'')]) = js ''2[>]5[>]3[>]a[>]b'' \<and>
   cleaned ([0x1b] @ js ''[1;31m2[>]5[>]3[>]a[>]b'' @ [0x1b] @ js ''[0m'') =
     js ''2[>]5[>]3[>]a[>]b'' \<and>
   new_Critique (cleaned ([0x1b] @ js ''[1;31m2[>]5[>]3[>]a[>]b'' @ [0x1b] @ js ''[0m'')) =
     Inr \<lparr>Critique.line = Some (Finite 1), column = Some (Finite 4),
          severity = Some (Finite 2), summary = Some (js ''a''),
          explanation = Some (js ''b''), error = None\<rparr> \<and>
   callback \<lparr>Output.error = None, critiques = []\<rparr>
       ([0x1b] @ js ''[1;31m2[>]5[>]3[>]a[>]b'' @ [0x1b] @ js ''[0m'') =
     Inr \<lparr>Output.error = None,
          critiques =
            [\<lparr>Critique.line = Some (Finite 1), column = Some (Finite 4),
              severity = Some (Finite 2), summary = Some (js ''a''),
              explanation = Some (js ''b''), error = None\<rparr>]\<rparr>"
proof -
  let ?ps = "[Escape ([0x1b] @ js ''[1;31m'')] @ map Plain (js ''2[>]5[>]3[>]a[>]b'') @
      [Escape ([0x1b] @ js ''[0m'')]"
  let ?w = "[0x1b] @ js ''[1;31m2[>]5[>]3[>]a[>]b'' @ [0x1b] @ js ''[0m''"
  let ?p = "js ''2[>]5[>]3[>]a[>]b''"
  let ?c = "\<lparr>Critique.line = Some (Finite 1), column = Some (Finite 4),
          severity = Some (Finite 2), summary = Some (js ''a''),
          explanation = Some (js ''b''), error = None\<rparr>"
  let ?out = "\<lparr>Output.error = None, critiques = []\<rparr>"
  have m: "list_all marked ?ps"
    by (simp add: str_eval re_eval escapeCode_def oneOf_def)
  have w: "written ?ps = ?w"
    by (simp add: js_def)
  have p: "plain ?ps = ?p"
    by (simp add: js_def)
  have t: "trim ?p = ?p"
    by (simp add: str_eval)
  have c: "cleaned ?p = ?p"
    by (simp add: str_eval re_eval cleaned_def)
  have v: "?p \<noteq> []" "\<not> failsValidation ?p"
    by (simp_all add: str_eval num_eval fieldSeparator_def failsValidation_def
        cong: let_weak_cong)
  have n: "new_Critique ?p = Inr ?c"
    by (simp add: str_eval num_eval out_eval cong: let_weak_cong)
  have k: "callback ?out ?p = Inr \<lparr>Output.error = None, critiques = [?c]\<rparr>"
    unfolding callback_def Let_def c n by (simp add: js_def ch_def)
  note th = escape_codes_are_stripped [OF m, of ?out, unfolded w p c]
  from th t have 1: "cleaned ?w = ?p" by blast
  from th v have 2: "new_Critique (cleaned ?w) = new_Critique ?p" by blast
  from th v have 3: "callback ?out ?w = callback ?out ?p" by blast
  from m w p 1 2 3 show ?thesis
    unfolding n k by (intro conjI)
qed

end
